theory Spec2Isabelle
  imports Main "HOL-Library.Word"
begin

section \<open>The coordinator of rtsp-simple-server (main.go)\<close>

text \<open>
  The coordinator is the goroutine \<^verbatim>\<open>program.run\<close>: it receives one event at a time
  from \<^verbatim>\<open>p.events\<close> and is the only code that touches the program's maps and counters.
  The embedding is a step function on an explicit state. What the Go runtime decides
  (the order in which \<^verbatim>\<open>range\<close> walks a map, the address of a new object) is an
  argument of the step; what the step sends to the outside (replies on \<^verbatim>\<open>res\<close>, closing
  of \<^verbatim>\<open>done\<close>, spawned goroutines, writes to listeners and to client queues) is the
  list of effects it returns; a run-time panic is the left summand of the result.
\<close>

subsection \<open>Data\<close>

text \<open>Go's \<^verbatim>\<open>int\<close> on a 64-bit target: arithmetic wraps, \<open>sint\<close> reads the value.\<close>

type_synonym goint = "64 word"
type_synonym byte = "8 word"

text \<open>Pointers \<^verbatim>\<open>*serverClient\<close> and \<^verbatim>\<open>*source\<close> are addresses into two stores.\<close>

type_synonym cid = nat
type_synonym sid = nat

text \<open>
  A \<^verbatim>\<open>net.IP\<close> is modelled by the address it denotes, so that \<^verbatim>\<open>IP.Equal\<close> is equality.
\<close>

type_synonym netIP = nat

record track =
  rtpPort :: goint
  rtcpPort :: goint

datatype streamProtocol = streamProtocolUdp | streamProtocolTcp

fun String :: "streamProtocol \<Rightarrow> string" where
  "String s = (if s = streamProtocolUdp then ''udp'' else ''tcp'')"

text \<open>\<^verbatim>\<open>gortsplib.StreamType\<close>.\<close>

datatype streamType = StreamTypeRtp | StreamTypeRtcp

text \<open>\<^verbatim>\<open>net.UDPAddr\<close> and the pair handed to a UDP listener.\<close>

record udpAddr =
  IP :: netIP
  Zone :: string
  Port :: goint

record udpAddrBufPair =
  addr :: udpAddr
  buf :: "byte list"

text \<open>\<^verbatim>\<open>gortsplib.InterleavedFrame\<close>.\<close>

record interleavedFrame =
  TrackId :: goint
  StreamType :: streamType
  Content :: "byte list"

text \<open>\<^verbatim>\<open>sdp.SessionDescription\<close>: only the media descriptions are read, and only counted.\<close>

record sessionDescription =
  MediaDescriptions :: "string list"

text \<open>
  The session states. \<^verbatim>\<open>main.go\<close> names five of them; the state of a new session is the
  specification's INITIAL.
\<close>

datatype clientState =
    clientStateInitial
  | clientStateAnnounce
  | clientStatePrePlay
  | clientStatePlay
  | clientStatePreRecord
  | clientStateRecord

text \<open>
  The fields of \<^verbatim>\<open>serverClient\<close> that \<^verbatim>\<open>main.go\<close> reads or writes. The struct itself is
  declared outside \<^verbatim>\<open>main.go\<close>: \<open>remoteIp\<close> and \<open>remoteZone\<close> are what its methods
  \<^verbatim>\<open>ip()\<close> and \<^verbatim>\<open>zone()\<close> return, \<open>RtcpReceivers\<close> holds one handle of a library object
  per entry, \<open>writeBufCap\<close> is the capacity of the slices that \<^verbatim>\<open>writeBuf.swap()\<close>
  hands out, and \<open>streamSdpText\<close>, \<open>streamSdpParsed\<close> are what the session stored at
  ANNOUNCE.
\<close>

record serverClient =
  remoteIp :: netIP
  remoteZone :: string
  state :: clientState
  path :: string
  streamProtocol :: streamProtocol
  streamTracks :: "track list"
  streamSdpText :: "byte list"
  streamSdpParsed :: sessionDescription
  RtcpReceivers :: "nat list"
  writeBufCap :: nat

text \<open>The fields of \<^verbatim>\<open>source\<close> that \<^verbatim>\<open>main.go\<close> reads or writes.\<close>

record source =
  sourcePath :: string
  ready :: bool
  serverSdpText :: "byte list"
  serverSdpParsed :: sessionDescription

text \<open>
  The interface \<^verbatim>\<open>publisher\<close>: \<^emph>\<open>a publisher can be either a serverClient or a source\<close>.
\<close>

datatype publisher = PubClient cid | PubSource sid

text \<open>
  The state of \<^verbatim>\<open>program\<close>, with the two stores the pointers lead to. The set
  \<open>clients\<close> is the key set of \<^verbatim>\<open>map[*serverClient]struct{}\<close>.
\<close>

record program =
  clients :: "cid set"
  sources :: "sid list"
  publishers :: "string \<rightharpoonup> publisher"
  publisherCount :: goint
  receiverCount :: goint
  clientMem :: "cid \<Rightarrow> serverClient"
  sourceMem :: "sid \<Rightarrow> source"

text \<open>
  The events. The channels \<^verbatim>\<open>res\<close> and \<^verbatim>\<open>done\<close> of the Go structs are not fields here:
  what the coordinator sends on them is an effect of the step.
\<close>

datatype programEvent =
    programEventClientNew netIP string
  | programEventClientClose cid
  | programEventClientDescribe string
  | programEventClientAnnounce cid string
  | programEventClientSetupPlay cid string streamProtocol goint goint
  | programEventClientSetupRecord cid streamProtocol goint goint
  | programEventClientPlay1 cid
  | programEventClientPlay2 cid
  | programEventClientPlayStop cid
  | programEventClientRecord cid
  | programEventClientRecordStop cid
  | programEventClientFrameUdp udpAddr streamType "byte list"
  | programEventClientFrameTcp string goint streamType "byte list"
  | programEventStreamerReady sid
  | programEventStreamerNotReady sid
  | programEventStreamerFrame sid goint streamType "byte list"
  | programEventTerminate

text \<open>
  What a step sends out:
  \<^item> \<open>ResBytes\<close>: \<^verbatim>\<open>evt.res <- b\<close> on a \<^verbatim>\<open>chan []byte\<close> (\<open>None\<close> is \<^verbatim>\<open>nil\<close>);
  \<^item> \<open>ResError\<close>: \<^verbatim>\<open>evt.res <- err\<close> on a \<^verbatim>\<open>chan error\<close> (\<open>None\<close> is \<^verbatim>\<open>nil\<close>, \<open>Some m\<close> an
    error with message \<open>m\<close>);
  \<^item> \<open>CloseDone\<close>: \<^verbatim>\<open>close(evt.done)\<close>;
  \<^item> \<open>GoClose c\<close>: \<^verbatim>\<open>go oc.close()\<close>; \<open>ClientClose c\<close>: \<^verbatim>\<open>c.close()\<close>;
  \<^item> \<open>RtplWrite\<close>, \<open>RtcplWrite\<close>: \<^verbatim>\<open>p.rtpl.write\<close>, \<^verbatim>\<open>p.rtcpl.write\<close>;
  \<^item> \<open>FrameTcp c f\<close>: \<^verbatim>\<open>client.events <- serverClientEventFrameTcp{f}\<close>;
  \<^item> \<open>OnFrame r t b\<close>: the call \<^verbatim>\<open>OnFrame(t, b)\<close> on the RTCP receiver \<open>r\<close>;
  \<^item> \<open>ClientLog\<close>, \<open>SourceLog\<close>: a log line;
  \<^item> \<open>ClientRun\<close>: the driver of a new session is started;
  \<^item> \<open>SourceClose\<close>, \<open>RtsplClose\<close>, \<open>RtcplClose\<close>, \<open>RtplClose\<close>, \<open>CloseEvents\<close>,
    \<open>CloseProgramDone\<close>: the shutdown.
\<close>

datatype effect =
    ResBytes "byte list option"
  | ResError "string option"
  | CloseDone
  | GoClose cid
  | ClientClose cid
  | RtplWrite udpAddrBufPair
  | RtcplWrite udpAddrBufPair
  | FrameTcp cid interleavedFrame
  | OnFrame nat streamType "byte list"
  | ClientLog cid string
  | SourceLog sid string
  | ClientRun cid
  | SourceClose sid
  | RtsplClose
  | RtcplClose
  | RtplClose
  | CloseEvents
  | CloseProgramDone

datatype panic = IndexOutOfRange | SliceBoundsOutOfRange

text \<open>
  The choices of the Go runtime during one step: the order of \<^verbatim>\<open>range p.clients\<close>, the
  order of \<^verbatim>\<open>range p.publishers\<close>, and the address \<^verbatim>\<open>newServerClient\<close> returns.
\<close>

record runtime =
  rangeClients :: "cid list"
  rangePublishers :: "string list"
  newAddr :: cid

definition rangeOk :: "runtime \<Rightarrow> program \<Rightarrow> bool" where
  "rangeOk rt p \<longleftrightarrow>
     distinct (rangeClients rt) \<and> set (rangeClients rt) = clients p \<and>
     distinct (rangePublishers rt) \<and> set (rangePublishers rt) = dom (publishers p)"

subsection \<open>The publisher interface\<close>

text \<open>
  Modelled from the spec: \<^verbatim>\<open>publisherIsReady\<close> is implemented outside \<^verbatim>\<open>main.go\<close>, once
  for sessions and once for sources. A client-publisher is a session that has completed
  ANNOUNCE, SETUP and RECORD: it is ready in state RECORD, the state in which
  \<open>publisher_count\<close> counts it. A source-publisher is ready when its \<open>ready\<close> flag is
  set.
\<close>

fun publisherIsReady :: "program \<Rightarrow> publisher \<Rightarrow> bool" where
  "publisherIsReady p (PubClient c) = (state (clientMem p c) = clientStateRecord)"
| "publisherIsReady p (PubSource s) = ready (sourceMem p s)"

text \<open>
  Modelled from the spec: \<^verbatim>\<open>publisherSdpText\<close> is implemented outside \<^verbatim>\<open>main.go\<close>; it is
  the SDP text the session stored at ANNOUNCE, or the one the source obtained upstream.
\<close>

fun publisherSdpText :: "program \<Rightarrow> publisher \<Rightarrow> byte list" where
  "publisherSdpText p (PubClient c) = streamSdpText (clientMem p c)"
| "publisherSdpText p (PubSource s) = serverSdpText (sourceMem p s)"

text \<open>
  Modelled from the spec: \<^verbatim>\<open>publisherSdpParsed\<close> is implemented outside \<^verbatim>\<open>main.go\<close>; it
  is the parsed form of the same SDP.
\<close>

fun publisherSdpParsed :: "program \<Rightarrow> publisher \<Rightarrow> sessionDescription" where
  "publisherSdpParsed p (PubClient c) = streamSdpParsed (clientMem p c)"
| "publisherSdpParsed p (PubSource s) = serverSdpParsed (sourceMem p s)"

text \<open>
  Modelled from the spec: \<^verbatim>\<open>newServerClient\<close> is outside \<^verbatim>\<open>main.go\<close>. A new session has
  state INITIAL, an empty path and no tracks, and the peer address of its connection; its
  other fields are what the store holds at the new address.
\<close>

definition newServerClient :: "serverClient \<Rightarrow> netIP \<Rightarrow> string \<Rightarrow> serverClient" where
  "newServerClient mem ip zone =
     mem \<lparr> remoteIp := ip, remoteZone := zone, state := clientStateInitial, path := [],
           streamTracks := [] \<rparr>"

subsection \<open>Slices\<close>

text \<open>\<^verbatim>\<open>xs[i]\<close> with Go's bounds check: \<open>None\<close> is the panic.\<close>

definition sliceIndex :: "'a list \<Rightarrow> goint \<Rightarrow> 'a option" where
  "sliceIndex xs i =
     (if 0 \<le> sint i \<and> nat (sint i) < length xs then Some (xs ! nat (sint i)) else None)"

subsection \<open>findPublisher\<close>

text \<open>
  The inner loop \<^verbatim>\<open>for i, t := range cl.streamTracks\<close>: the first index whose port
  matches; \<open>i\<close> is the index of the head of the remaining tracks.
\<close>

fun findTrack :: "streamType \<Rightarrow> goint \<Rightarrow> track list \<Rightarrow> nat \<Rightarrow> nat option" where
  "findTrack st port [] i = None"
| "findTrack st port (t # ts) i =
     (if st = StreamTypeRtp then
        (if rtpPort t = port then Some i else findTrack st port ts (Suc i))
      else
        (if rtcpPort t = port then Some i else findTrack st port ts (Suc i)))"

text \<open>
  The outer loop \<^verbatim>\<open>for _, pub := range p.publishers\<close> over the keys in the order the
  runtime walks them. \<open>None\<close> is the result \<^verbatim>\<open>(nil, -1)\<close>.
\<close>

fun findPublisherRange ::
  "program \<Rightarrow> string list \<Rightarrow> udpAddr \<Rightarrow> streamType \<Rightarrow> (cid \<times> goint) option" where
  "findPublisherRange p [] a st = None"
| "findPublisherRange p (k # ks) a st =
     (case publishers p k of
        None \<Rightarrow> findPublisherRange p ks a st
      | Some (PubSource s) \<Rightarrow> findPublisherRange p ks a st
      | Some (PubClient cl) \<Rightarrow>
          (if streamProtocol (clientMem p cl) \<noteq> streamProtocolUdp \<or>
              state (clientMem p cl) \<noteq> clientStateRecord \<or>
              \<not> (remoteIp (clientMem p cl) = IP a)
           then findPublisherRange p ks a st
           else
             (case findTrack st (Port a) (streamTracks (clientMem p cl)) 0 of
                Some i \<Rightarrow> Some (cl, of_nat i)
              | None \<Rightarrow> findPublisherRange p ks a st)))"

definition findPublisher ::
  "runtime \<Rightarrow> program \<Rightarrow> udpAddr \<Rightarrow> streamType \<Rightarrow> (cid \<times> goint) option" where
  "findPublisher rt p a st = findPublisherRange p (rangePublishers rt) a st"

subsection \<open>forwardFrame\<close>

text \<open>What the loop body sends to one receiver, or the panic of its index or slice.\<close>

definition forwardTo ::
  "program \<Rightarrow> cid \<Rightarrow> goint \<Rightarrow> streamType \<Rightarrow> byte list \<Rightarrow> panic + effect" where
  "forwardTo p client trackId st frame =
     (if streamProtocol (clientMem p client) = streamProtocolUdp then
        (case sliceIndex (streamTracks (clientMem p client)) trackId of
           None \<Rightarrow> Inl IndexOutOfRange
         | Some t \<Rightarrow>
             (if st = StreamTypeRtp then
                Inr (RtplWrite \<lparr> addr = \<lparr> IP = remoteIp (clientMem p client),
                                         Zone = remoteZone (clientMem p client),
                                         Port = rtpPort t \<rparr>,
                                 buf = frame \<rparr>)
              else
                Inr (RtcplWrite \<lparr> addr = \<lparr> IP = remoteIp (clientMem p client),
                                          Zone = remoteZone (clientMem p client),
                                          Port = rtcpPort t \<rparr>,
                                  buf = frame \<rparr>)))
      else
        (if writeBufCap (clientMem p client) < length frame then Inl SliceBoundsOutOfRange
         else Inr (FrameTcp client
                     \<lparr> TrackId = trackId, StreamType = st, Content = frame \<rparr>)))"

fun forwardFrameRange ::
  "program \<Rightarrow> cid list \<Rightarrow> string \<Rightarrow> goint \<Rightarrow> streamType \<Rightarrow> byte list \<Rightarrow> panic + effect list"
  where
  "forwardFrameRange p [] pa trackId st frame = Inr []"
| "forwardFrameRange p (client # cs) pa trackId st frame =
     (if path (clientMem p client) = pa \<and> state (clientMem p client) = clientStatePlay then
        (case forwardTo p client trackId st frame of
           Inl e \<Rightarrow> Inl e
         | Inr w \<Rightarrow>
             (case forwardFrameRange p cs pa trackId st frame of
                Inl e \<Rightarrow> Inl e
              | Inr ws \<Rightarrow> Inr (w # ws)))
      else forwardFrameRange p cs pa trackId st frame)"

definition forwardFrame ::
  "runtime \<Rightarrow> program \<Rightarrow> string \<Rightarrow> goint \<Rightarrow> streamType \<Rightarrow> byte list \<Rightarrow> panic + effect list"
  where
  "forwardFrame rt p pa trackId st frame =
     forwardFrameRange p (rangeClients rt) pa trackId st frame"

subsection \<open>The event loop\<close>

text \<open>\<^verbatim>\<open>fmt.Errorf("... '%s'", s)\<close>: the string between two apostrophes.\<close>

definition quoted :: "string \<Rightarrow> string" where
  "quoted s = CHR 0x27 # s @ [CHR 0x27]"

text \<open>
  The loop of RecordStop: \<^emph>\<open>close all other clients that share the same path\<close>. \<open>p\<close> is
  the state after the client's state has been set.
\<close>

fun closeOthersRange :: "program \<Rightarrow> cid \<Rightarrow> cid list \<Rightarrow> effect list" where
  "closeOthersRange p c [] = []"
| "closeOthersRange p c (oc # ocs) =
     (if oc \<noteq> c \<and> path (clientMem p oc) = path (clientMem p c)
      then GoClose oc # closeOthersRange p c ocs
      else closeOthersRange p c ocs)"

text \<open>The loop of StreamerNotReady: \<^emph>\<open>close all clients that share the same path\<close>.\<close>

fun closeAllRange :: "program \<Rightarrow> sid \<Rightarrow> cid list \<Rightarrow> effect list" where
  "closeAllRange p s [] = []"
| "closeAllRange p s (oc # ocs) =
     (if path (clientMem p oc) = sourcePath (sourceMem p s)
      then GoClose oc # closeAllRange p s ocs
      else closeAllRange p s ocs)"

text \<open>
  One iteration of \<^verbatim>\<open>for rawEvt := range p.events\<close>: the body of the \<^verbatim>\<open>switch\<close>. The
  case of \<open>programEventTerminate\<close> leaves the loop; \<open>run\<close> below does that.
\<close>

fun step :: "runtime \<Rightarrow> program \<Rightarrow> programEvent \<Rightarrow> panic + (program \<times> effect list)" where
  "step rt p (programEventClientNew ip zone) =
     (let c = newAddr rt in
      Inr (p \<lparr> clients := insert c (clients p),
               clientMem := (clientMem p)(c := newServerClient (clientMem p c) ip zone) \<rparr>,
           [ClientRun c, ClientLog c ''connected'']))"
| "step rt p (programEventClientClose c) =
     (if c \<notin> clients p then Inr (p, [CloseDone])
      else
        (let p1 = p \<lparr> clients := clients p - {c} \<rparr>;
             pa = path (clientMem p c);
             p2 = (if pa \<noteq> [] then
                     (case publishers p1 pa of
                        Some pub \<Rightarrow>
                          (if pub = PubClient c
                           then p1 \<lparr> publishers := (publishers p1)(pa := None) \<rparr>
                           else p1)
                      | None \<Rightarrow> p1)
                   else p1)
         in Inr (p2, [ClientLog c ''disconnected'', CloseDone])))"
| "step rt p (programEventClientDescribe pa) =
     (case publishers p pa of
        None \<Rightarrow> Inr (p, [ResBytes None])
      | Some pub \<Rightarrow>
          (if \<not> publisherIsReady p pub then Inr (p, [ResBytes None])
           else Inr (p, [ResBytes (Some (publisherSdpText p pub))])))"
| "step rt p (programEventClientAnnounce c pa) =
     (case publishers p pa of
        Some pub \<Rightarrow>
          Inr (p, [ResError (Some (''someone is already publishing on path '' @ quoted pa))])
      | None \<Rightarrow>
          Inr (p \<lparr> clientMem := (clientMem p)
                     (c := (clientMem p c) \<lparr> path := pa, state := clientStateAnnounce \<rparr>),
                   publishers := (publishers p)(pa \<mapsto> PubClient c) \<rparr>,
               [ResError None]))"
| "step rt p (programEventClientSetupPlay c pa proto rtp rtcp) =
     (case publishers p pa of
        None \<Rightarrow> Inr (p, [ResError (Some (''no one is streaming on path '' @ quoted pa))])
      | Some pub \<Rightarrow>
          (if \<not> publisherIsReady p pub
           then Inr (p, [ResError (Some (''no one is streaming on path '' @ quoted pa))])
           else
             (let sdpParsed = publisherSdpParsed p pub in
              if length (streamTracks (clientMem p c)) \<ge> length (MediaDescriptions sdpParsed)
              then Inr (p, [ResError (Some ''all the tracks have already been setup'')])
              else
                Inr (p \<lparr> clientMem := (clientMem p)
                           (c := (clientMem p c)
                              \<lparr> path := pa,
                                streamProtocol := proto,
                                streamTracks := streamTracks (clientMem p c) @
                                  [\<lparr> rtpPort = rtp, rtcpPort = rtcp \<rparr>],
                                state := clientStatePrePlay \<rparr>) \<rparr>,
                     [ResError None]))))"
| "step rt p (programEventClientSetupRecord c proto rtp rtcp) =
     Inr (p \<lparr> clientMem := (clientMem p)
                (c := (clientMem p c)
                   \<lparr> streamProtocol := proto,
                     streamTracks := streamTracks (clientMem p c) @
                       [\<lparr> rtpPort = rtp, rtcpPort = rtcp \<rparr>],
                     state := clientStatePreRecord \<rparr>) \<rparr>,
          [ResError None])"
| "step rt p (programEventClientPlay1 c) =
     (case publishers p (path (clientMem p c)) of
        None \<Rightarrow>
          Inr (p, [ResError (Some (''no one is streaming on path '' @
                                   quoted (path (clientMem p c))))])
      | Some pub \<Rightarrow>
          (if \<not> publisherIsReady p pub
           then Inr (p, [ResError (Some (''no one is streaming on path '' @
                                         quoted (path (clientMem p c))))])
           else
             (let sdpParsed = publisherSdpParsed p pub in
              if length (streamTracks (clientMem p c)) \<noteq> length (MediaDescriptions sdpParsed)
              then Inr (p, [ResError (Some ''not all tracks have been setup'')])
              else Inr (p, [ResError None]))))"
| "step rt p (programEventClientPlay2 c) =
     Inr (p \<lparr> receiverCount := receiverCount p + 1,
              clientMem := (clientMem p)(c := (clientMem p c) \<lparr> state := clientStatePlay \<rparr>) \<rparr>,
          [CloseDone])"
| "step rt p (programEventClientPlayStop c) =
     Inr (p \<lparr> receiverCount := receiverCount p - 1,
              clientMem := (clientMem p)
                (c := (clientMem p c) \<lparr> state := clientStatePrePlay \<rparr>) \<rparr>,
          [CloseDone])"
| "step rt p (programEventClientRecord c) =
     Inr (p \<lparr> publisherCount := publisherCount p + 1,
              clientMem := (clientMem p)
                (c := (clientMem p c) \<lparr> state := clientStateRecord \<rparr>) \<rparr>,
          [CloseDone])"
| "step rt p (programEventClientRecordStop c) =
     (let p1 = p \<lparr> publisherCount := publisherCount p - 1,
                   clientMem := (clientMem p)
                     (c := (clientMem p c) \<lparr> state := clientStatePreRecord \<rparr>) \<rparr>
      in Inr (p1, closeOthersRange p1 c (rangeClients rt) @ [CloseDone]))"
| "step rt p (programEventClientFrameUdp a st b) =
     (case findPublisher rt p a st of
        None \<Rightarrow> Inr (p, [])
      | Some (client, trackId) \<Rightarrow>
          (case sliceIndex (RtcpReceivers (clientMem p client)) trackId of
             None \<Rightarrow> Inl IndexOutOfRange
           | Some r \<Rightarrow>
               (case forwardFrame rt p (path (clientMem p client)) trackId st b of
                  Inl e \<Rightarrow> Inl e
                | Inr ws \<Rightarrow> Inr (p, OnFrame r st b # ws))))"
| "step rt p (programEventClientFrameTcp pa trackId st b) =
     (case forwardFrame rt p pa trackId st b of
        Inl e \<Rightarrow> Inl e
      | Inr ws \<Rightarrow> Inr (p, ws))"
| "step rt p (programEventStreamerReady s) =
     Inr (p \<lparr> sourceMem := (sourceMem p)(s := (sourceMem p s) \<lparr> ready := True \<rparr>),
              publisherCount := publisherCount p + 1 \<rparr>,
          [SourceLog s ''ready''])"
| "step rt p (programEventStreamerNotReady s) =
     (let p1 = p \<lparr> sourceMem := (sourceMem p)(s := (sourceMem p s) \<lparr> ready := False \<rparr>),
                   publisherCount := publisherCount p - 1 \<rparr>
      in Inr (p1, SourceLog s ''not ready'' # closeAllRange p1 s (rangeClients rt)))"
| "step rt p (programEventStreamerFrame s trackId st b) =
     (case forwardFrame rt p (sourcePath (sourceMem p s)) trackId st b of
        Inl e \<Rightarrow> Inl e
      | Inr ws \<Rightarrow> Inr (p, ws))"
| "step rt p programEventTerminate = Inr (p, [])"

text \<open>
  The goroutine started after the loop: what it sends for one event it receives.
\<close>

fun drain :: "programEvent \<Rightarrow> effect list" where
  "drain (programEventClientClose c) = [CloseDone]"
| "drain (programEventClientDescribe pa) = [ResBytes None]"
| "drain (programEventClientAnnounce c pa) = [ResError (Some ''terminated'')]"
| "drain (programEventClientSetupPlay c pa proto rtp rtcp) = [ResError (Some ''terminated'')]"
| "drain (programEventClientSetupRecord c proto rtp rtcp) = [ResError (Some ''terminated'')]"
| "drain (programEventClientPlay1 c) = [ResError (Some ''terminated'')]"
| "drain (programEventClientPlay2 c) = [CloseDone]"
| "drain (programEventClientPlayStop c) = [CloseDone]"
| "drain (programEventClientRecord c) = [CloseDone]"
| "drain (programEventClientRecordStop c) = [CloseDone]"
| "drain evt = []"

text \<open>What \<^verbatim>\<open>run\<close> itself does after the loop, while the drainer runs.\<close>

definition shutdown :: "runtime \<Rightarrow> program \<Rightarrow> effect list" where
  "shutdown rt p =
     map SourceClose (sources p) @ [RtsplClose, RtcplClose, RtplClose] @
     map ClientClose (rangeClients rt) @ [CloseEvents, CloseProgramDone]"

text \<open>
  \<^verbatim>\<open>program.run\<close> on the events it receives, each with the runtime's choices for its
  step. The result is the state, what the loop and the shutdown sent, and what the
  drainer sent for the events after \<open>programEventTerminate\<close>. With no event left and no
  \<open>programEventTerminate\<close> seen, the loop is waiting for the next event.
\<close>

fun run ::
  "program \<Rightarrow> (runtime \<times> programEvent) list \<Rightarrow>
     panic + (program \<times> effect list \<times> effect list)" where
  "run p [] = Inr (p, [], [])"
| "run p ((rt, evt) # rest) =
     (if evt = programEventTerminate
      then Inr (p, shutdown rt p, concat (map (\<lambda>(rt', evt'). drain evt') rest))
      else
        (case step rt p evt of
           Inl e \<Rightarrow> Inl e
         | Inr (p', es) \<Rightarrow>
             (case run p' rest of
                Inl e \<Rightarrow> Inl e
              | Inr (p'', es', ds) \<Rightarrow> Inr (p'', es @ es', ds))))"

section \<open>What the specification says, as predicates on the model\<close>

subsection \<open>Publisher lookup and forwarding\<close>

text \<open>A track's port for a stream type: the RTP port for RTP, the RTCP port otherwise.\<close>

definition trackMatches :: "streamType \<Rightarrow> goint \<Rightarrow> track \<Rightarrow> bool" where
  "trackMatches st port t \<longleftrightarrow>
     (if st = StreamTypeRtp then rtpPort t = port else rtcpPort t = port)"

text \<open>
  The condition of the specification's publisher-by-address lookup: \<open>c\<close> is a
  client-publisher of the map, streams over UDP, is in state RECORD, has the peer's IP,
  and its track \<open>i\<close> has the peer's port.
\<close>

definition publishesFrom :: "program \<Rightarrow> udpAddr \<Rightarrow> streamType \<Rightarrow> cid \<Rightarrow> nat \<Rightarrow> bool" where
  "publishesFrom p a st c i \<longleftrightarrow>
     (\<exists>k. publishers p k = Some (PubClient c)) \<and>
     streamProtocol (clientMem p c) = streamProtocolUdp \<and>
     state (clientMem p c) = clientStateRecord \<and>
     remoteIp (clientMem p c) = IP a \<and>
     i < length (streamTracks (clientMem p c)) \<and>
     trackMatches st (Port a) (streamTracks (clientMem p c) ! i)"

text \<open>The receivers of a path: the registered clients in state PLAY with that path.\<close>

definition receivers :: "program \<Rightarrow> string \<Rightarrow> cid set" where
  "receivers p pa =
     {c \<in> clients p. path (clientMem p c) = pa \<and> state (clientMem p c) = clientStatePlay}"

text \<open>
  The write the specification prescribes for one receiver: a datagram to the port of its
  track \<open>trackId\<close> on the listener of the stream type, or an interleaved frame on its queue.
\<close>

definition expectedWrite :: "program \<Rightarrow> goint \<Rightarrow> streamType \<Rightarrow> byte list \<Rightarrow> cid \<Rightarrow> effect" where
  "expectedWrite p trackId st frame c =
     (if streamProtocol (clientMem p c) = streamProtocolUdp then
        (if st = StreamTypeRtp
         then RtplWrite \<lparr> addr = \<lparr> IP = remoteIp (clientMem p c), Zone = remoteZone (clientMem p c),
                Port = rtpPort (streamTracks (clientMem p c) ! nat (sint trackId)) \<rparr>, buf = frame \<rparr>
         else RtcplWrite \<lparr> addr = \<lparr> IP = remoteIp (clientMem p c), Zone = remoteZone (clientMem p c),
                Port = rtcpPort (streamTracks (clientMem p c) ! nat (sint trackId)) \<rparr>, buf = frame \<rparr>)
      else FrameTcp c \<lparr> TrackId = trackId, StreamType = st, Content = frame \<rparr>)"

text \<open>
  The receiver can be served without a run-time panic: a UDP receiver has a track at
  \<open>trackId\<close>, the scratch buffer of a TCP receiver holds the frame.
\<close>

definition canForward :: "program \<Rightarrow> goint \<Rightarrow> byte list \<Rightarrow> cid \<Rightarrow> bool" where
  "canForward p trackId frame c \<longleftrightarrow>
     (if streamProtocol (clientMem p c) = streamProtocolUdp
      then 0 \<le> sint trackId \<and> nat (sint trackId) < length (streamTracks (clientMem p c))
      else length frame \<le> writeBufCap (clientMem p c))"

subsection \<open>The counters\<close>

text \<open>
  The states of the publishing side, the publishers that are ready, the clients that
  play, and the specification's equalities between them and the two counters (the
  counters are machine integers, the equalities are read in them).
\<close>

definition publishing :: "clientState \<Rightarrow> bool" where
  "publishing s \<longleftrightarrow>
     s = clientStateAnnounce \<or> s = clientStatePreRecord \<or> s = clientStateRecord"

definition readyPublishers :: "program \<Rightarrow> string set" where
  "readyPublishers p = {k. \<exists>pub. publishers p k = Some pub \<and> publisherIsReady p pub}"

definition playingClients :: "program \<Rightarrow> cid set" where
  "playingClients p = {c \<in> clients p. state (clientMem p c) = clientStatePlay}"

definition countsOk :: "program \<Rightarrow> bool" where
  "countsOk p \<longleftrightarrow>
     publisherCount p = of_nat (card (readyPublishers p)) \<and>
     receiverCount p = of_nat (card (playingClients p))"

text \<open>
  How the map and the sessions hang together between two events: both containers are
  finite, a client-publisher is registered, has the path it is published under (never the
  empty one) and is in a state of the publishing side, and a source-publisher is published
  under its own path.
\<close>

definition wellFormed :: "program \<Rightarrow> bool" where
  "wellFormed p \<longleftrightarrow>
     finite (clients p) \<and> finite (dom (publishers p)) \<and>
     (\<forall>k c. publishers p k = Some (PubClient c) \<longrightarrow>
        c \<in> clients p \<and> path (clientMem p c) = k \<and> k \<noteq> [] \<and>
        publishing (state (clientMem p c))) \<and>
     (\<forall>k s. publishers p k = Some (PubSource s) \<longrightarrow> sourcePath (sourceMem p s) = k)"

text \<open>
  The events a session or a source worker sends when it follows the state machine of the
  sessions: each event in the state it belongs to, ANNOUNCE with a non-empty path, and a
  session that closes has left PLAY and is no ready publisher.
\<close>

fun eventOk :: "runtime \<Rightarrow> program \<Rightarrow> programEvent \<Rightarrow> bool" where
  "eventOk rt p (programEventClientNew ip zone) = (newAddr rt \<notin> clients p)"
| "eventOk rt p (programEventClientClose c) =
     (c \<in> clients p \<longrightarrow>
        state (clientMem p c) \<noteq> clientStatePlay \<and>
        \<not> (state (clientMem p c) = clientStateRecord \<and>
           publishers p (path (clientMem p c)) = Some (PubClient c)))"
| "eventOk rt p (programEventClientAnnounce c pa) =
     (c \<in> clients p \<and> state (clientMem p c) = clientStateInitial \<and> pa \<noteq> [])"
| "eventOk rt p (programEventClientSetupPlay c pa proto rtp rtcp) =
     (state (clientMem p c) = clientStateInitial \<or> state (clientMem p c) = clientStatePrePlay)"
| "eventOk rt p (programEventClientSetupRecord c proto rtp rtcp) =
     (state (clientMem p c) = clientStateAnnounce \<or> state (clientMem p c) = clientStatePreRecord)"
| "eventOk rt p (programEventClientPlay2 c) =
     (c \<in> clients p \<and> state (clientMem p c) = clientStatePrePlay)"
| "eventOk rt p (programEventClientPlayStop c) =
     (c \<in> clients p \<and> state (clientMem p c) = clientStatePlay)"
| "eventOk rt p (programEventClientRecord c) =
     (state (clientMem p c) = clientStatePreRecord \<and>
      publishers p (path (clientMem p c)) = Some (PubClient c))"
| "eventOk rt p (programEventClientRecordStop c) =
     (state (clientMem p c) = clientStateRecord \<and>
      publishers p (path (clientMem p c)) = Some (PubClient c))"
| "eventOk rt p (programEventStreamerReady s) =
     (\<not> ready (sourceMem p s) \<and> publishers p (sourcePath (sourceMem p s)) = Some (PubSource s))"
| "eventOk rt p (programEventStreamerNotReady s) =
     (ready (sourceMem p s) \<and> publishers p (sourcePath (sourceMem p s)) = Some (PubSource s))"
| "eventOk rt p evt = True"


text \<open>The same for a sequence of events, each in the state the loop has reached.\<close>

fun eventsOk :: "program \<Rightarrow> (runtime \<times> programEvent) list \<Rightarrow> bool" where
  "eventsOk p [] = True"
| "eventsOk p ((rt, evt) # rest) =
     (evt = programEventTerminate \<or>
      (eventOk rt p evt \<and>
       (case step rt p evt of Inl e \<Rightarrow> True | Inr (p', es) \<Rightarrow> eventsOk p' rest)))"

text \<open>
  A receiving client has no more tracks than the publisher of its path has media
  descriptions.
\<close>

definition tracksWithinSdp :: "program \<Rightarrow> cid \<Rightarrow> bool" where
  "tracksWithinSdp p c \<longleftrightarrow>
     (case publishers p (path (clientMem p c)) of
        None \<Rightarrow> True
      | Some pub \<Rightarrow>
          length (streamTracks (clientMem p c)) \<le>
            length (MediaDescriptions (publisherSdpParsed p pub)))"

text \<open>
  The states of the receiving side, and the bound for every registered client in one of
  them.
\<close>

definition receiving :: "clientState \<Rightarrow> bool" where
  "receiving s \<longleftrightarrow> s = clientStatePrePlay \<or> s = clientStatePlay"

definition tracksBound :: "program \<Rightarrow> bool" where
  "tracksBound p \<longleftrightarrow>
     (\<forall>c \<in> clients p. receiving (state (clientMem p c)) \<longrightarrow> tracksWithinSdp p c)"



subsection \<open>Replies\<close>

text \<open>
  The channel an event struct carries, if any (\<^verbatim>\<open>res chan []byte\<close>, \<^verbatim>\<open>res chan error\<close>,
  \<^verbatim>\<open>done chan struct{}\<close>), the channel an effect is a send or a close on, and what it is
  for an effect to answer an event: the event waits on a channel and the effect is on it.
\<close>

datatype channel = ResBytesChan | ResErrorChan | DoneChan

fun channelOf :: "programEvent \<Rightarrow> channel option" where
  "channelOf (programEventClientClose c) = Some DoneChan"
| "channelOf (programEventClientDescribe pa) = Some ResBytesChan"
| "channelOf (programEventClientAnnounce c pa) = Some ResErrorChan"
| "channelOf (programEventClientSetupPlay c pa proto rtp rtcp) = Some ResErrorChan"
| "channelOf (programEventClientSetupRecord c proto rtp rtcp) = Some ResErrorChan"
| "channelOf (programEventClientPlay1 c) = Some ResErrorChan"
| "channelOf (programEventClientPlay2 c) = Some DoneChan"
| "channelOf (programEventClientPlayStop c) = Some DoneChan"
| "channelOf (programEventClientRecord c) = Some DoneChan"
| "channelOf (programEventClientRecordStop c) = Some DoneChan"
| "channelOf evt = None"

fun sentOn :: "effect \<Rightarrow> channel option" where
  "sentOn (ResBytes r) = Some ResBytesChan"
| "sentOn (ResError r) = Some ResErrorChan"
| "sentOn CloseDone = Some DoneChan"
| "sentOn x = None"

definition awaitsReply :: "programEvent \<Rightarrow> bool" where
  "awaitsReply evt \<longleftrightarrow> channelOf evt \<noteq> None"

definition answers :: "programEvent \<Rightarrow> effect \<Rightarrow> bool" where
  "answers evt x \<longleftrightarrow> awaitsReply evt \<and> sentOn x = channelOf evt"

section \<open>Concrete states\<close>

text \<open>A session as it is before any request, and a source that has not connected yet.\<close>

definition client0 :: serverClient where
  "client0 =
     \<lparr> remoteIp = 1, remoteZone = [], state = clientStateInitial, path = [],
       streamProtocol = streamProtocolUdp, streamTracks = [], streamSdpText = [],
       streamSdpParsed = \<lparr> MediaDescriptions = [] \<rparr>, RtcpReceivers = [],
       writeBufCap = 2048 \<rparr>"

definition source0 :: source where
  "source0 =
     \<lparr> sourcePath = ''cam'', ready = False, serverSdpText = [118, 61, 48],
       serverSdpParsed = \<lparr> MediaDescriptions = [''video''] \<rparr> \<rparr>"

text \<open>
  The program after start-up with one configured source on the path \<open>cam\<close>, and the same
  once the source is ready.
\<close>

definition program0 :: program where
  "program0 =
     \<lparr> clients = {}, sources = [0], publishers = [''cam'' \<mapsto> PubSource 0],
       publisherCount = 0, receiverCount = 0,
       clientMem = (\<lambda>c. client0), sourceMem = (\<lambda>s. source0) \<rparr>"

definition program1 :: program where
  "program1 =
     program0 \<lparr> sourceMem := (\<lambda>s. source0 \<lparr> ready := True \<rparr>), publisherCount := 1 \<rparr>"

definition runtime0 :: runtime where
  "runtime0 = \<lparr> rangeClients = [], rangePublishers = [''cam''], newAddr = 1 \<rparr>"

text \<open>
  A program in the middle of a stream: session 1 records on the path \<open>live\<close> over UDP,
  sessions 2 (UDP) and 3 (TCP) play it.
\<close>

definition recorder :: serverClient where
  "recorder =
     \<lparr> remoteIp = 10, remoteZone = [], state = clientStateRecord, path = ''live'',
       streamProtocol = streamProtocolUdp,
       streamTracks = [\<lparr> rtpPort = 5000, rtcpPort = 5001 \<rparr>],
       streamSdpText = [118, 61, 48],
       streamSdpParsed = \<lparr> MediaDescriptions = [''video''] \<rparr>, RtcpReceivers = [7],
       writeBufCap = 2048 \<rparr>"

definition playerUdp :: serverClient where
  "playerUdp =
     \<lparr> remoteIp = 20, remoteZone = [], state = clientStatePlay, path = ''live'',
       streamProtocol = streamProtocolUdp,
       streamTracks = [\<lparr> rtpPort = 6000, rtcpPort = 6001 \<rparr>],
       streamSdpText = [],
       streamSdpParsed = \<lparr> MediaDescriptions = [] \<rparr>, RtcpReceivers = [],
       writeBufCap = 2048 \<rparr>"

definition playerTcp :: serverClient where
  "playerTcp =
     \<lparr> remoteIp = 30, remoteZone = [], state = clientStatePlay, path = ''live'',
       streamProtocol = streamProtocolTcp,
       streamTracks = [\<lparr> rtpPort = 0, rtcpPort = 1 \<rparr>],
       streamSdpText = [],
       streamSdpParsed = \<lparr> MediaDescriptions = [] \<rparr>, RtcpReceivers = [],
       writeBufCap = 2048 \<rparr>"

definition programLive :: program where
  "programLive =
     \<lparr> clients = {1, 2, 3}, sources = [0],
       publishers = [''cam'' \<mapsto> PubSource 0, ''live'' \<mapsto> PubClient 1],
       publisherCount = 1, receiverCount = 2,
       clientMem = (\<lambda>c. client0)(1 := recorder, 2 := playerUdp, 3 := playerTcp),
       sourceMem = (\<lambda>s. source0) \<rparr>"

definition runtimeLive :: runtime where
  "runtimeLive = \<lparr> rangeClients = [3, 1, 2], rangePublishers = [''cam'', ''live''], newAddr = 4 \<rparr>"

text \<open>The state a run ends in (the state it started in, should it panic).\<close>

definition stateAfter :: "program \<Rightarrow> (runtime \<times> programEvent) list \<Rightarrow> program" where
  "stateAfter p evts = (case run p evts of Inl e \<Rightarrow> p | Inr (p', es, ds) \<Rightarrow> p')"

text \<open>
  A session plays the source of \<open>program0\<close> and disconnects. In \<open>playAndStop\<close> it
  sends PlayStop before ClientClose, in \<open>closeWhilePlaying\<close> it does not.
\<close>

definition runtime1 :: runtime where
  "runtime1 = \<lparr> rangeClients = [1], rangePublishers = [''cam''], newAddr = 2 \<rparr>"

definition playAndStop :: "(runtime \<times> programEvent) list" where
  "playAndStop =
     [(runtime0, programEventStreamerReady 0),
      (runtime0, programEventClientNew 20 []),
      (runtime1, programEventClientSetupPlay 1 ''cam'' streamProtocolUdp 6000 6001),
      (runtime1, programEventClientPlay1 1),
      (runtime1, programEventClientPlay2 1),
      (runtime1, programEventClientPlayStop 1),
      (runtime1, programEventClientClose 1)]"

definition closeWhilePlaying :: "(runtime \<times> programEvent) list" where
  "closeWhilePlaying =
     [(runtime0, programEventStreamerReady 0),
      (runtime0, programEventClientNew 20 []),
      (runtime1, programEventClientSetupPlay 1 ''cam'' streamProtocolUdp 6000 6001),
      (runtime1, programEventClientPlay1 1),
      (runtime1, programEventClientPlay2 1),
      (runtime1, programEventClientClose 1)]"

text \<open>
  A publisher is replaced while a receiver of its path is still registered. Session 1
  announces \<open>live\<close> with two media descriptions and records; session 2 sets up both
  tracks; session 1 stops and disconnects, which only schedules the close of session 2;
  session 3 announces \<open>live\<close> with one media description. The SDP of a session is in
  its own fields, where the session and not the loop puts it.
\<close>

definition programStart :: program where
  "programStart =
     \<lparr> clients = {}, sources = [], publishers = Map.empty,
       publisherCount = 0, receiverCount = 0,
       clientMem = (\<lambda>c. client0)
         (1 := client0 \<lparr> streamSdpParsed := \<lparr> MediaDescriptions = [''video'', ''audio''] \<rparr> \<rparr>,
          3 := client0 \<lparr> streamSdpParsed := \<lparr> MediaDescriptions = [''video''] \<rparr> \<rparr>),
       sourceMem = (\<lambda>s. source0) \<rparr>"

definition runtimeOf :: "cid list \<Rightarrow> string list \<Rightarrow> cid \<Rightarrow> runtime" where
  "runtimeOf cs ks n = \<lparr> rangeClients = cs, rangePublishers = ks, newAddr = n \<rparr>"



text \<open>
  A receiver left behind. Session 1 announces \<open>live\<close> with one media description, sets up
  its track and records; session 2 sets up that track and plays; session 1 stops and
  disconnects, which only schedules the close of session 2; session 3 announces \<open>live\<close>
  with two media descriptions, sets up both tracks and records. Then a datagram arrives
  from the RTP port of the second track of session 3. The SDP and the RTCP receivers of a
  session are in its own fields, where the session and not the loop puts them.
\<close>

definition programStale :: program where
  "programStale =
     \<lparr> clients = {}, sources = [], publishers = Map.empty,
       publisherCount = 0, receiverCount = 0,
       clientMem = (\<lambda>c. client0)
         (1 := client0 \<lparr> streamSdpParsed := \<lparr> MediaDescriptions = [''video''] \<rparr>,
                          RtcpReceivers := [7] \<rparr>,
          3 := client0 \<lparr> streamSdpParsed := \<lparr> MediaDescriptions = [''video'', ''audio''] \<rparr>,
                          RtcpReceivers := [8, 9] \<rparr>),
       sourceMem = (\<lambda>s. source0) \<rparr>"

definition becomeStale :: "(runtime \<times> programEvent) list" where
  "becomeStale =
     [(runtimeOf [] [] 1, programEventClientNew 10 []),
      (runtimeOf [1] [] 2, programEventClientAnnounce 1 ''live''),
      (runtimeOf [1] [''live''] 2, programEventClientSetupRecord 1 streamProtocolUdp 5000 5001),
      (runtimeOf [1] [''live''] 2, programEventClientRecord 1),
      (runtimeOf [1] [''live''] 2, programEventClientNew 20 []),
      (runtimeOf [1, 2] [''live''] 3,
         programEventClientSetupPlay 2 ''live'' streamProtocolUdp 6000 6001),
      (runtimeOf [1, 2] [''live''] 3, programEventClientPlay1 2),
      (runtimeOf [1, 2] [''live''] 3, programEventClientPlay2 2),
      (runtimeOf [1, 2] [''live''] 3, programEventClientRecordStop 1),
      (runtimeOf [1, 2] [''live''] 3, programEventClientClose 1),
      (runtimeOf [2] [] 3, programEventClientNew 30 []),
      (runtimeOf [2, 3] [] 4, programEventClientAnnounce 3 ''live''),
      (runtimeOf [2, 3] [''live''] 4, programEventClientSetupRecord 3 streamProtocolUdp 7000 7001),
      (runtimeOf [2, 3] [''live''] 4, programEventClientSetupRecord 3 streamProtocolUdp 7002 7003),
      (runtimeOf [2, 3] [''live''] 4, programEventClientRecord 3)]"

definition staleFrame :: "runtime \<times> programEvent" where
  "staleFrame =
     (runtimeOf [2, 3] [''live''] 4,
      programEventClientFrameUdp \<lparr> IP = 30, Zone = [], Port = 7002 \<rparr> StreamTypeRtp [1, 2, 3])"

section \<open>The handlers of the event loop\<close>

subsection \<open>Announce\<close>

text \<open>
  C2. An Announce event is answered with an error exactly when the map of publishers has
  an entry for the path; the error says that someone is already publishing on the path
  and the state is as before. Otherwise the answer is ok, and afterwards the client has
  the path, is in state ANNOUNCE and is the publisher of the path.
\<close>

theorem announce_spec:
  "\<exists>p' r. step rt p (programEventClientAnnounce c pa) = Inr (p', [ResError r]) \<and>
     (r \<noteq> None \<longleftrightarrow> publishers p pa \<noteq> None) \<and>
     (publishers p pa \<noteq> None \<longrightarrow>
        r = Some (''someone is already publishing on path '' @ quoted pa) \<and> p' = p) \<and>
     (publishers p pa = None \<longrightarrow>
        path (clientMem p' c) = pa \<and>
        state (clientMem p' c) = clientStateAnnounce \<and>
        publishers p' pa = Some (PubClient c))"
  by (cases "publishers p pa") auto

text \<open>
  Both cases of C2 at work: the path \<open>cam\<close> is taken in \<open>program0\<close>, the path
  \<open>live\<close> is free.
\<close>

theorem announce_spec_witness:
  "step runtime0 program0 (programEventClientAnnounce 1 ''cam'') =
     Inr (program0, [ResError (Some (''someone is already publishing on path '' @ quoted ''cam''))]) \<and>
   (\<exists>p'. step runtime0 program0 (programEventClientAnnounce 1 ''live'') = Inr (p', [ResError None]) \<and>
      path (clientMem p' 1) = ''live'' \<and> state (clientMem p' 1) = clientStateAnnounce \<and>
      publishers p' ''live'' = Some (PubClient 1))"
  using announce_spec [of runtime0 program0 1 "''cam''"]
    announce_spec [of runtime0 program0 1 "''live''"]
  by (auto simp: program0_def quoted_def)

subsection \<open>SetupRecord\<close>

text \<open>
  C3, as the code has it. A SetupRecord event is answered with ok whatever the state of
  the client is: the loop does not look at it. One track with the two ports is appended,
  the protocol is set and the state becomes PRE_RECORD.
\<close>

theorem setupRecord_always_ok:
  "\<exists>p'. step rt p (programEventClientSetupRecord c proto rtp rtcp) = Inr (p', [ResError None]) \<and>
     streamTracks (clientMem p' c) =
       streamTracks (clientMem p c) @ [\<lparr> rtpPort = rtp, rtcpPort = rtcp \<rparr>] \<and>
     streamProtocol (clientMem p' c) = proto \<and>
     state (clientMem p' c) = clientStatePreRecord"
  by simp

text \<open>
  C3 as stated fails: a session in state INITIAL, neither ANNOUNCE nor PRE_RECORD, gets ok
  and is moved to PRE_RECORD.
\<close>

theorem setupRecord_counterexample:
  "state (clientMem program0 1) = clientStateInitial \<and>
   step runtime0 program0 (programEventClientSetupRecord 1 streamProtocolUdp 5000 5001) =
     Inr (program0 \<lparr> clientMem := (clientMem program0)
            (1 := client0 \<lparr> streamProtocol := streamProtocolUdp,
                             streamTracks := [\<lparr> rtpPort = 5000, rtcpPort = 5001 \<rparr>],
                             state := clientStatePreRecord \<rparr>) \<rparr>,
          [ResError None])"
  by (simp add: program0_def client0_def)

subsection \<open>Describe\<close>

text \<open>
  C4. A Describe event never changes the state. Its answer is the SDP text the
  publisher of the path holds, byte for byte, when the path has a publisher and that
  publisher is ready; in every other case the answer is empty.
\<close>

theorem describe_spec:
  "\<exists>r. step rt p (programEventClientDescribe pa) = Inr (p, [ResBytes r]) \<and>
     ((\<exists>pub. publishers p pa = Some pub \<and> publisherIsReady p pub \<and>
             r = Some (publisherSdpText p pub)) \<or>
      (\<not> (\<exists>pub. publishers p pa = Some pub \<and> publisherIsReady p pub) \<and> r = None))"
  by (cases "publishers p pa") auto

text \<open>
  C4 at work: a ready source gives its three bytes, the same source not yet ready gives
  nothing.
\<close>

theorem describe_spec_witness:
  "step runtime0 program1 (programEventClientDescribe ''cam'') =
     Inr (program1, [ResBytes (Some [118, 61, 48])]) \<and>
   step runtime0 program0 (programEventClientDescribe ''cam'') =
     Inr (program0, [ResBytes None])"
  using describe_spec [of runtime0 program1 "''cam''"]
    describe_spec [of runtime0 program0 "''cam''"]
  by (auto simp: program0_def program1_def source0_def)

subsection \<open>RecordStop\<close>

lemma closeOthersRange_filter:
  "closeOthersRange p c xs =
     map GoClose (filter (\<lambda>oc. oc \<noteq> c \<and> path (clientMem p oc) = path (clientMem p c)) xs)"
  by (induction xs) auto

text \<open>
  C8. A RecordStop event takes one off \<open>publisherCount\<close>, puts the client into state
  PRE_RECORD, leaves the map of publishers and the set of clients as they are, and starts
  one close for each registered client other than the sender whose path is the sender's
  path, and for no other client; then it closes \<open>done\<close>.
\<close>

theorem recordStop_spec:
  assumes "rangeOk rt p"
  shows "\<exists>p' es. step rt p (programEventClientRecordStop c) = Inr (p', es @ [CloseDone]) \<and>
     publisherCount p' = publisherCount p - 1 \<and>
     state (clientMem p' c) = clientStatePreRecord \<and>
     publishers p' = publishers p \<and> clients p' = clients p \<and>
     distinct es \<and>
     set es = GoClose ` {oc \<in> clients p. oc \<noteq> c \<and> path (clientMem p oc) = path (clientMem p c)}"
  using assms
  by (auto simp: Let_def closeOthersRange_filter rangeOk_def distinct_map inj_on_def)

text \<open>
  C8 at work: when the recorder of \<open>programLive\<close> stops, its two players are closed.
\<close>

theorem recordStop_spec_witness:
  "rangeOk runtimeLive programLive \<and>
   (\<exists>p'. step runtimeLive programLive (programEventClientRecordStop 1) =
            Inr (p', [GoClose 3, GoClose 2, CloseDone]) \<and>
          publisherCount p' = 0 \<and> publishers p' = publishers programLive)"
proof -
  have h: "rangeOk runtimeLive programLive"
    by (auto simp: rangeOk_def runtimeLive_def programLive_def)
  from recordStop_spec [OF h, of 1] h show ?thesis
    by (auto simp: runtimeLive_def programLive_def recorder_def playerUdp_def playerTcp_def
          client0_def Let_def)
qed

subsection \<open>Refusals\<close>

lemma forwardFrameRange_no_reply:
  "forwardFrameRange p cs pa t st b = Inr ws \<Longrightarrow>
     ResBytes r \<notin> set ws \<and> ResError e \<notin> set ws"
  by (induction cs arbitrary: ws)
     (auto simp: forwardTo_def split: if_splits sum.splits option.splits)

lemma closeOthersRange_no_reply:
  "ResBytes r \<notin> set (closeOthersRange p c xs) \<and> ResError e \<notin> set (closeOthersRange p c xs)"
  by (induction xs) auto

lemma closeAllRange_no_reply:
  "ResBytes r \<notin> set (closeAllRange p s xs) \<and> ResError e \<notin> set (closeAllRange p s xs)"
  by (induction xs) auto

text \<open>
  C10. Whenever a step answers with an error or with an empty result, the state after the
  step is the state before it: the clients, the publishers, both counters and every field
  of every session. This covers Announce on a taken path, Describe without a ready
  publisher, SetupPlay without a ready publisher or with all tracks set up, and Play1
  without a ready publisher or with differing track counts.
\<close>

theorem refusal_keeps_state:
  assumes "step rt p evt = Inr (p', es)"
    and "ResBytes None \<in> set es \<or> (\<exists>m. ResError (Some m) \<in> set es)"
  shows "p' = p"
  using assms
  by (cases evt)
     (auto simp: Let_def forwardFrame_def closeOthersRange_no_reply closeAllRange_no_reply
           dest: forwardFrameRange_no_reply
           split: option.splits if_splits sum.splits prod.splits)

text \<open>
  C10 at work: Play1 for a session without a path is refused and \<open>program0\<close> stays as
  it is.
\<close>

theorem refusal_keeps_state_witness:
  "\<exists>p' es. step runtime0 program0 (programEventClientPlay1 1) = Inr (p', es) \<and>
     ResError (Some (''no one is streaming on path '' @ quoted [])) \<in> set es \<and>
     p' = program0"
proof -
  obtain p' es where s: "step runtime0 program0 (programEventClientPlay1 1) = Inr (p', es)"
    and e: "es = [ResError (Some (''no one is streaming on path '' @ quoted []))]"
    by (simp add: program0_def client0_def)
  from e have "ResBytes None \<in> set es \<or> (\<exists>m. ResError (Some m) \<in> set es)"
    by simp
  from refusal_keeps_state [OF s this] s e show ?thesis
    by simp
qed

subsection \<open>The lookup of a publisher by address\<close>

lemma findTrack_Some:
  "findTrack st port ts i0 = Some n \<Longrightarrow>
     i0 \<le> n \<and> n - i0 < length ts \<and> trackMatches st port (ts ! (n - i0))"
proof (induction ts arbitrary: i0)
  case Nil
  then show ?case by simp
next
  case (Cons t ts)
  show ?case
  proof (cases "trackMatches st port t")
    case True
    with Cons.prems show ?thesis by (auto simp: trackMatches_def split: if_splits)
  next
    case False
    with Cons.prems have "findTrack st port ts (Suc i0) = Some n"
      by (auto simp: trackMatches_def split: if_splits)
    from Cons.IH [OF this] have le: "Suc i0 \<le> n" and len: "n - Suc i0 < length ts"
      and m: "trackMatches st port (ts ! (n - Suc i0))"
      by auto
    from le have "n - i0 = Suc (n - Suc i0)" by arith
    with le len m show ?thesis by simp
  qed
qed

lemma findTrack_None:
  "findTrack st port ts i0 = None \<longleftrightarrow> (\<forall>t \<in> set ts. \<not> trackMatches st port t)"
  by (induction ts arbitrary: i0) (auto simp: trackMatches_def)

lemma findPublisherRange_Some:
  "findPublisherRange p ks a st = Some (c, i) \<Longrightarrow>
     \<exists>k \<in> set ks. \<exists>n. publishers p k = Some (PubClient c) \<and> i = of_nat n \<and>
        publishesFrom p a st c n"
proof (induction ks)
  case Nil
  then show ?case by simp
next
  case (Cons k ks)
  show ?case
  proof (cases "findPublisherRange p ks a st = Some (c, i)")
    case True
    with Cons.IH show ?thesis by auto
  next
    case False
    with Cons.prems obtain n where pub: "publishers p k = Some (PubClient c)"
      and u: "streamProtocol (clientMem p c) = streamProtocolUdp"
      and r: "state (clientMem p c) = clientStateRecord"
      and ip: "remoteIp (clientMem p c) = IP a"
      and ft: "findTrack st (Port a) (streamTracks (clientMem p c)) 0 = Some n"
      and i: "i = of_nat n"
      by (auto split: option.splits publisher.splits if_splits)
    from findTrack_Some [OF ft] pub u r ip have "publishesFrom p a st c n"
      by (auto simp: publishesFrom_def)
    with pub i show ?thesis by auto
  qed
qed

lemma findPublisherRange_None:
  "findPublisherRange p ks a st = None \<Longrightarrow> k \<in> set ks \<Longrightarrow>
     publishers p k = Some (PubClient c) \<Longrightarrow> \<not> publishesFrom p a st c n"
proof (induction ks)
  case Nil
  then show ?case by simp
next
  case (Cons k' ks)
  show ?case
  proof (cases "k = k'")
    case True
    with Cons.prems have
      "streamProtocol (clientMem p c) \<noteq> streamProtocolUdp \<or>
       state (clientMem p c) \<noteq> clientStateRecord \<or>
       remoteIp (clientMem p c) \<noteq> IP a \<or>
       findTrack st (Port a) (streamTracks (clientMem p c)) 0 = None"
      by (auto split: option.splits if_splits)
    then show ?thesis
      by (auto simp: publishesFrom_def findTrack_None)
  next
    case False
    from Cons.prems(1) have "findPublisherRange p ks a st = None"
      by (auto split: option.splits publisher.splits if_splits)
    with Cons.IH Cons.prems False show ?thesis by auto
  qed
qed

text \<open>
  C6. Whatever order the runtime walks the map in: a pair the lookup returns is a
  client-publisher of the map that streams over UDP, is in state RECORD, has the peer's IP
  and has the peer's port at the returned index (so no source is ever returned); the
  lookup returns a pair exactly when such a client and index exist; and when it returns
  none, the FrameUdp event sends nothing and leaves the state as it is.
\<close>

theorem findPublisher_spec:
  assumes "rangeOk rt p"
  shows "(\<forall>c i. findPublisher rt p a st = Some (c, i) \<longrightarrow>
            (\<exists>n. i = of_nat n \<and> publishesFrom p a st c n)) \<and>
         ((\<exists>c i. findPublisher rt p a st = Some (c, i)) \<longleftrightarrow> (\<exists>c n. publishesFrom p a st c n)) \<and>
         (findPublisher rt p a st = None \<longrightarrow>
            step rt p (programEventClientFrameUdp a st b) = Inr (p, []))"
proof (intro conjI allI impI)
  fix c i
  assume "findPublisher rt p a st = Some (c, i)"
  then show "\<exists>n. i = of_nat n \<and> publishesFrom p a st c n"
    unfolding findPublisher_def by (blast dest: findPublisherRange_Some)
next
  show "(\<exists>c i. findPublisher rt p a st = Some (c, i)) \<longleftrightarrow> (\<exists>c n. publishesFrom p a st c n)"
  proof
    assume "\<exists>c i. findPublisher rt p a st = Some (c, i)"
    then show "\<exists>c n. publishesFrom p a st c n"
      unfolding findPublisher_def by (blast dest: findPublisherRange_Some)
  next
    assume "\<exists>c n. publishesFrom p a st c n"
    then obtain c n k where m: "publishesFrom p a st c n"
      and k: "publishers p k = Some (PubClient c)"
      by (auto simp: publishesFrom_def)
    from k assms have "k \<in> set (rangePublishers rt)"
      by (auto simp: rangeOk_def)
    with m k have "findPublisherRange p (rangePublishers rt) a st \<noteq> None"
      using findPublisherRange_None [of p "rangePublishers rt" a st k c n] by blast
    then show "\<exists>c i. findPublisher rt p a st = Some (c, i)"
      unfolding findPublisher_def by auto
  qed
next
  assume "findPublisher rt p a st = None"
  then show "step rt p (programEventClientFrameUdp a st b) = Inr (p, [])"
    by simp
qed

lemma rangeOk_live: "rangeOk runtimeLive programLive"
  by (auto simp: rangeOk_def runtimeLive_def programLive_def)

text \<open>
  C6 at work: a datagram from the recorder's RTP port is found at track 0, one from
  another port of the same host is dropped.
\<close>

theorem findPublisher_spec_witness:
  "rangeOk runtimeLive programLive \<and>
   findPublisher runtimeLive programLive \<lparr> IP = 10, Zone = [], Port = 5000 \<rparr> StreamTypeRtp
     = Some (1, 0) \<and>
   (\<exists>n. publishesFrom programLive \<lparr> IP = 10, Zone = [], Port = 5000 \<rparr> StreamTypeRtp 1 n) \<and>
   findPublisher runtimeLive programLive \<lparr> IP = 10, Zone = [], Port = 5002 \<rparr> StreamTypeRtp
     = None \<and>
   step runtimeLive programLive
     (programEventClientFrameUdp \<lparr> IP = 10, Zone = [], Port = 5002 \<rparr> StreamTypeRtp [1, 2, 3])
     = Inr (programLive, [])"
proof -
  have f: "findPublisher runtimeLive programLive \<lparr> IP = 10, Zone = [], Port = 5000 \<rparr>
             StreamTypeRtp = Some (1, 0)"
    by (simp add: findPublisher_def runtimeLive_def programLive_def recorder_def)
  have g: "findPublisher runtimeLive programLive \<lparr> IP = 10, Zone = [], Port = 5002 \<rparr>
             StreamTypeRtp = None"
    by (simp add: findPublisher_def runtimeLive_def programLive_def recorder_def)
  from findPublisher_spec [OF rangeOk_live, of "\<lparr> IP = 10, Zone = [], Port = 5000 \<rparr>" StreamTypeRtp]
    f
  have "\<exists>n. publishesFrom programLive \<lparr> IP = 10, Zone = [], Port = 5000 \<rparr> StreamTypeRtp 1 n"
    by blast
  moreover
  from findPublisher_spec [OF rangeOk_live, of "\<lparr> IP = 10, Zone = [], Port = 5002 \<rparr>" StreamTypeRtp
      "[1, 2, 3]"] g
  have "step runtimeLive programLive
     (programEventClientFrameUdp \<lparr> IP = 10, Zone = [], Port = 5002 \<rparr> StreamTypeRtp [1, 2, 3])
     = Inr (programLive, [])"
    by blast
  ultimately show ?thesis
    using f g rangeOk_live by blast
qed

subsection \<open>Forwarding\<close>

lemma forwardFrameRange_ok:
  assumes "\<forall>c \<in> set cs. path (clientMem p c) = pa \<and> state (clientMem p c) = clientStatePlay \<longrightarrow>
             canForward p trackId frame c"
  shows "forwardFrameRange p cs pa trackId st frame =
     Inr (map (expectedWrite p trackId st frame)
            (filter (\<lambda>c. path (clientMem p c) = pa \<and> state (clientMem p c) = clientStatePlay) cs))"
  using assms
  by (induction cs)
     (auto simp: forwardTo_def expectedWrite_def canForward_def sliceIndex_def)

lemma forwardFrameRange_panic:
  assumes "c \<in> set cs" "path (clientMem p c) = pa" "state (clientMem p c) = clientStatePlay"
    "\<not> canForward p trackId frame c"
  shows "\<exists>e. forwardFrameRange p cs pa trackId st frame = Inl e"
  using assms
  by (induction cs)
     (auto simp: forwardTo_def canForward_def sliceIndex_def split: sum.splits if_splits)

lemma receivers_live: "receivers programLive ''live'' = {2, 3}"
  by (auto simp: receivers_def programLive_def recorder_def playerUdp_def playerTcp_def
        client0_def)

text \<open>
  C7, as the code has it. Whatever order the runtime walks the clients in: when every
  receiver can be served (a UDP receiver has a track at \<open>trackId\<close>, the frame fits the
  scratch buffer of a TCP receiver), forwarding sends exactly one write for each
  registered client in state PLAY with the frame's path and none for any other client;
  for a UDP receiver it goes to the RTP or RTCP port of its track \<open>trackId\<close> and carries
  the bytes of the frame unchanged. When some receiver cannot be served, the index or the
  slice expression panics.
\<close>

theorem forwardFrame_spec:
  assumes "rangeOk rt p"
  shows "((\<forall>c \<in> receivers p pa. canForward p trackId frame c) \<longrightarrow>
            (\<exists>rs. distinct rs \<and> set rs = receivers p pa \<and>
               forwardFrame rt p pa trackId st frame =
                 Inr (map (expectedWrite p trackId st frame) rs))) \<and>
         ((\<exists>c \<in> receivers p pa. \<not> canForward p trackId frame c) \<longrightarrow>
            (\<exists>e. forwardFrame rt p pa trackId st frame = Inl e))"
proof (intro conjI impI)
  assume ok: "\<forall>c \<in> receivers p pa. canForward p trackId frame c"
  let ?rs = "filter (\<lambda>c. path (clientMem p c) = pa \<and> state (clientMem p c) = clientStatePlay)
               (rangeClients rt)"
  from assms ok have "forwardFrame rt p pa trackId st frame =
      Inr (map (expectedWrite p trackId st frame) ?rs)"
    unfolding forwardFrame_def
    by (intro forwardFrameRange_ok) (auto simp: rangeOk_def receivers_def)
  moreover from assms have "distinct ?rs" "set ?rs = receivers p pa"
    by (auto simp: rangeOk_def receivers_def)
  ultimately show "\<exists>rs. distinct rs \<and> set rs = receivers p pa \<and>
      forwardFrame rt p pa trackId st frame = Inr (map (expectedWrite p trackId st frame) rs)"
    by blast
next
  assume "\<exists>c \<in> receivers p pa. \<not> canForward p trackId frame c"
  then obtain c where c: "c \<in> receivers p pa" and n: "\<not> canForward p trackId frame c"
    by blast
  from c assms have "c \<in> set (rangeClients rt)" "path (clientMem p c) = pa"
    "state (clientMem p c) = clientStatePlay"
    by (auto simp: rangeOk_def receivers_def)
  from forwardFrameRange_panic [OF this n]
  show "\<exists>e. forwardFrame rt p pa trackId st frame = Inl e"
    by (simp add: forwardFrame_def)
qed

text \<open>
  C7 at work: a frame on \<open>live\<close> goes to the TCP player and to port 6000 of the UDP
  player, and not to the recorder; a frame for a track the UDP player has not set up
  panics.
\<close>

theorem forwardFrame_spec_witness:
  "rangeOk runtimeLive programLive \<and>
   receivers programLive ''live'' = {2, 3} \<and>
   canForward programLive 0 [1, 2, 3] 2 \<and> canForward programLive 0 [1, 2, 3] 3 \<and>
   (\<exists>rs. distinct rs \<and> set rs = {2, 3} \<and>
      forwardFrame runtimeLive programLive ''live'' 0 StreamTypeRtp [1, 2, 3] =
        Inr (map (expectedWrite programLive 0 StreamTypeRtp [1, 2, 3]) rs)) \<and>
   forwardFrame runtimeLive programLive ''live'' 0 StreamTypeRtp [1, 2, 3] =
     Inr [FrameTcp 3 \<lparr> TrackId = 0, StreamType = StreamTypeRtp, Content = [1, 2, 3] \<rparr>,
          RtplWrite \<lparr> addr = \<lparr> IP = 20, Zone = [], Port = 6000 \<rparr>, buf = [1, 2, 3] \<rparr>] \<and>
   \<not> canForward programLive 5 [1, 2, 3] 2 \<and>
   forwardFrame runtimeLive programLive ''live'' 5 StreamTypeRtp [1, 2, 3] = Inl IndexOutOfRange"
proof -
  have c: "\<forall>c \<in> receivers programLive ''live''. canForward programLive 0 [1, 2, 3] c"
    by (simp add: receivers_live)
       (simp add: canForward_def programLive_def playerUdp_def playerTcp_def)
  then have c': "canForward programLive 0 [1, 2, 3] 2 \<and> canForward programLive 0 [1, 2, 3] 3"
    by (simp add: receivers_live)
  have v: "forwardFrame runtimeLive programLive ''live'' 0 StreamTypeRtp [1, 2, 3] =
     Inr [FrameTcp 3 \<lparr> TrackId = 0, StreamType = StreamTypeRtp, Content = [1, 2, 3] \<rparr>,
          RtplWrite \<lparr> addr = \<lparr> IP = 20, Zone = [], Port = 6000 \<rparr>, buf = [1, 2, 3] \<rparr>]"
    by (simp add: forwardFrame_def forwardTo_def sliceIndex_def runtimeLive_def programLive_def
          recorder_def playerUdp_def playerTcp_def)
  have n: "\<not> canForward programLive 5 [1, 2, 3] 2"
    by (simp add: canForward_def programLive_def playerUdp_def)
  have w: "forwardFrame runtimeLive programLive ''live'' 5 StreamTypeRtp [1, 2, 3] =
      Inl IndexOutOfRange"
    by (simp add: forwardFrame_def forwardTo_def sliceIndex_def runtimeLive_def programLive_def
          recorder_def playerUdp_def playerTcp_def)
  from forwardFrame_spec [OF rangeOk_live, of "''live''" 0 "[1, 2, 3]" StreamTypeRtp]
    c c' v n w rangeOk_live
  show ?thesis
    by (simp add: receivers_live)
qed

section \<open>The counters between two events\<close>

lemma count_insert:
  "finite A \<Longrightarrow> x \<notin> A \<Longrightarrow> (of_nat (card (insert x A)) :: goint) = of_nat (card A) + 1"
  by simp

lemma count_remove:
  assumes "finite A" "x \<in> A"
  shows "(of_nat (card (A - {x})) :: goint) = of_nat (card A) - 1"
proof -
  from assms have "Suc (card (A - {x})) = card A"
    by (rule card_Suc_Diff1)
  then have "(of_nat (card A) :: goint) = of_nat (Suc (card (A - {x})))"
    by (rule arg_cong [THEN sym])
  then show ?thesis
    by (simp only: of_nat_Suc add_diff_cancel_left')
qed

lemma finite_readyPublishers: "wellFormed p \<Longrightarrow> finite (readyPublishers p)"
  by (rule finite_subset [of _ "dom (publishers p)"])
     (auto simp: readyPublishers_def wellFormed_def)

lemma finite_playingClients: "wellFormed p \<Longrightarrow> finite (playingClients p)"
  by (auto simp: playingClients_def wellFormed_def)

lemma notPublisher:
  "wellFormed p \<Longrightarrow> \<not> publishing (state (clientMem p c)) \<Longrightarrow>
     publishers p k \<noteq> Some (PubClient c)"
  by (auto simp: wellFormed_def)

lemma unregistered_notPublisher:
  "wellFormed p \<Longrightarrow> c \<notin> clients p \<Longrightarrow> publishers p k \<noteq> Some (PubClient c)"
  by (auto simp: wellFormed_def)

lemma ready_other:
  assumes "\<And>k. publishers p k \<noteq> Some (PubClient c)"
    and "publishers p' = publishers p" "sourceMem p' = sourceMem p"
    and "\<And>c'. c' \<noteq> c \<Longrightarrow> clientMem p' c' = clientMem p c'"
  shows "readyPublishers p' = readyPublishers p"
proof -
  have "publisherIsReady p' pub = publisherIsReady p pub" if "publishers p k = Some pub" for k pub
  proof (cases pub)
    case (PubClient c')
    with that assms(1) have "c' \<noteq> c" by auto
    with PubClient assms(4) show ?thesis by simp
  next
    case (PubSource s)
    with assms(3) show ?thesis by simp
  qed
  with assms(2) show ?thesis
    by (auto simp: readyPublishers_def)
qed

lemma ready_same_state:
  assumes "publishers p' = publishers p" "sourceMem p' = sourceMem p"
    and "\<And>c'. (state (clientMem p' c') = clientStateRecord) =
               (state (clientMem p c') = clientStateRecord)"
  shows "readyPublishers p' = readyPublishers p"
proof -
  have "publisherIsReady p' pub = publisherIsReady p pub" for pub
    using assms by (cases pub) auto
  with assms(1) show ?thesis
    by (auto simp: readyPublishers_def)
qed

lemma step_ClientNew:
  assumes wf: "wellFormed p" and ok: "countsOk p" and new: "newAddr rt \<notin> clients p"
    and s: "step rt p (programEventClientNew ip zone) = Inr (p', es)"
  shows "wellFormed p' \<and> countsOk p'"
proof -
  let ?c = "newAddr rt"
  from s have p': "p' = p \<lparr> clients := insert ?c (clients p),
      clientMem := (clientMem p)(?c := newServerClient (clientMem p ?c) ip zone) \<rparr>"
    by (simp add: Let_def)
  have np: "\<And>k. publishers p k \<noteq> Some (PubClient ?c)"
    using wf new by (rule unregistered_notPublisher)
  have r: "readyPublishers p' = readyPublishers p"
    by (rule ready_other [OF np]) (simp_all add: p')
  have pl: "playingClients p' = playingClients p"
    using new by (auto simp: playingClients_def p' newServerClient_def)
  from wf np have "wellFormed p'"
    unfolding wellFormed_def p' by (auto simp: newServerClient_def)
  with ok r pl show ?thesis
    by (simp add: countsOk_def p')
qed

lemma wellFormedI:
  assumes "finite (clients p)" "finite (dom (publishers p))"
    and "\<And>k c. publishers p k = Some (PubClient c) \<Longrightarrow>
           c \<in> clients p \<and> path (clientMem p c) = k \<and> k \<noteq> [] \<and>
           publishing (state (clientMem p c))"
    and "\<And>k s. publishers p k = Some (PubSource s) \<Longrightarrow> sourcePath (sourceMem p s) = k"
  shows "wellFormed p"
  using assms unfolding wellFormed_def by blast

lemma wellFormed_client:
  "wellFormed p \<Longrightarrow> publishers p k = Some (PubClient c) \<Longrightarrow>
     c \<in> clients p \<and> path (clientMem p c) = k \<and> k \<noteq> [] \<and> publishing (state (clientMem p c))"
  unfolding wellFormed_def by blast

lemma wellFormed_source:
  "wellFormed p \<Longrightarrow> publishers p k = Some (PubSource s) \<Longrightarrow> sourcePath (sourceMem p s) = k"
  unfolding wellFormed_def by blast

lemma wellFormed_finite:
  "wellFormed p \<Longrightarrow> finite (clients p) \<and> finite (dom (publishers p))"
  unfolding wellFormed_def by blast

lemma publisherIsReady_update [simp]:
  "publisherIsReady (p \<lparr> clients := cs \<rparr>) pub = publisherIsReady p pub"
  "publisherIsReady (p \<lparr> publishers := ps \<rparr>) pub = publisherIsReady p pub"
  "publisherIsReady (p \<lparr> publisherCount := n \<rparr>) pub = publisherIsReady p pub"
  "publisherIsReady (p \<lparr> receiverCount := n \<rparr>) pub = publisherIsReady p pub"
  by (cases pub; simp)+

lemma step_ClientClose:
  assumes wf: "wellFormed p" and ok: "countsOk p"
    and e: "eventOk rt p (programEventClientClose c)"
    and s: "step rt p (programEventClientClose c) = Inr (p', es)"
  shows "wellFormed p' \<and> countsOk p'"
proof (cases "c \<in> clients p")
  case False
  with s wf ok show ?thesis by simp
next
  case True
  define pa where "pa = path (clientMem p c)"
  from e True have np: "state (clientMem p c) \<noteq> clientStatePlay"
    and nr: "\<not> (state (clientMem p c) = clientStateRecord \<and>
              publishers p pa = Some (PubClient c))"
    by (auto simp: pa_def)
  note fin = wellFormed_finite [OF wf]
  show ?thesis
  proof (cases "publishers p pa = Some (PubClient c)")
    case isPub: True
    from wellFormed_client [OF wf isPub] have ne: "pa \<noteq> []" by simp
    from s True isPub ne
    have p': "p' = p \<lparr> clients := clients p - {c}, publishers := (publishers p)(pa := None) \<rparr>"
      by (simp add: Let_def pa_def)
    from nr isPub have notRec: "state (clientMem p c) \<noteq> clientStateRecord" by simp
    have r: "readyPublishers p' = readyPublishers p"
      using isPub notRec by (auto simp: readyPublishers_def p')
    have pl: "playingClients p' = playingClients p"
      using np by (auto simp: playingClients_def p')
    have "wellFormed p'"
    proof (rule wellFormedI)
      show "finite (clients p')" using fin by (simp add: p')
      show "finite (dom (publishers p'))" using fin by (simp add: p')
    next
      fix k c'
      assume a: "publishers p' k = Some (PubClient c')"
      then have k: "k \<noteq> pa" and b: "publishers p k = Some (PubClient c')"
        by (auto simp: p' split: if_splits)
      from wellFormed_client [OF wf b] k have "c' \<noteq> c"
        by (auto simp: pa_def)
      with wellFormed_client [OF wf b]
      show "c' \<in> clients p' \<and> path (clientMem p' c') = k \<and> k \<noteq> [] \<and>
          publishing (state (clientMem p' c'))"
        by (simp add: p')
    next
      fix k s'
      assume "publishers p' k = Some (PubSource s')"
      then have "publishers p k = Some (PubSource s')"
        by (auto simp: p' split: if_splits)
      from wellFormed_source [OF wf this] show "sourcePath (sourceMem p' s') = k"
        by (simp add: p')
    qed
    with ok r pl show ?thesis
      by (simp add: countsOk_def p')
  next
    case notPub: False
    have nowhere: "publishers p k \<noteq> Some (PubClient c)" for k
    proof
      assume a: "publishers p k = Some (PubClient c)"
      from wellFormed_client [OF wf a] have "k = pa" by (simp add: pa_def)
      with a notPub show False by simp
    qed
    from s True notPub
    have p': "p' = p \<lparr> clients := clients p - {c} \<rparr>"
      by (auto simp: Let_def pa_def split: option.splits)
    have r: "readyPublishers p' = readyPublishers p"
      by (simp add: readyPublishers_def p')
    have pl: "playingClients p' = playingClients p"
      using np by (auto simp: playingClients_def p')
    have "wellFormed p'"
    proof (rule wellFormedI)
      show "finite (clients p')" using fin by (simp add: p')
      show "finite (dom (publishers p'))" using fin by (simp add: p')
    next
      fix k c'
      assume a: "publishers p' k = Some (PubClient c')"
      then have b: "publishers p k = Some (PubClient c')" by (simp add: p')
      with nowhere have "c' \<noteq> c" by auto
      with wellFormed_client [OF wf b]
      show "c' \<in> clients p' \<and> path (clientMem p' c') = k \<and> k \<noteq> [] \<and>
          publishing (state (clientMem p' c'))"
        by (simp add: p')
    next
      fix k s'
      assume "publishers p' k = Some (PubSource s')"
      then have "publishers p k = Some (PubSource s')" by (simp add: p')
      from wellFormed_source [OF wf this] show "sourcePath (sourceMem p' s') = k"
        by (simp add: p')
    qed
    with ok r pl show ?thesis
      by (simp add: countsOk_def p')
  qed
qed

lemma step_Announce:
  assumes wf: "wellFormed p" and ok: "countsOk p"
    and e: "eventOk rt p (programEventClientAnnounce c pa)"
    and s: "step rt p (programEventClientAnnounce c pa) = Inr (p', es)"
  shows "wellFormed p' \<and> countsOk p'"
proof (cases "publishers p pa")
  case (Some pub)
  with s wf ok show ?thesis by simp
next
  case None
  from e have reg: "c \<in> clients p" and ini: "state (clientMem p c) = clientStateInitial"
    and ne: "pa \<noteq> []"
    by auto
  note fin = wellFormed_finite [OF wf]
  from ini have "\<not> publishing (state (clientMem p c))"
    by (simp add: publishing_def)
  with wf have np: "\<And>k. publishers p k \<noteq> Some (PubClient c)"
    by (rule notPublisher)
  from s None have p': "p' = p \<lparr> clientMem := (clientMem p)
        (c := (clientMem p c) \<lparr> path := pa, state := clientStateAnnounce \<rparr>),
      publishers := (publishers p)(pa \<mapsto> PubClient c) \<rparr>"
    by simp
  have rdy: "publisherIsReady p' pub = publisherIsReady p pub"
    if "publishers p k = Some pub" for k pub
  proof (cases pub)
    case (PubClient c')
    with that np have "c' \<noteq> c" by auto
    with PubClient show ?thesis by (simp add: p')
  next
    case (PubSource s)
    then show ?thesis by (simp add: p')
  qed
  have r: "readyPublishers p' = readyPublishers p"
  proof (rule set_eqI)
    fix k
    show "k \<in> readyPublishers p' \<longleftrightarrow> k \<in> readyPublishers p"
    proof (cases "k = pa")
      case True
      with None show ?thesis by (simp add: readyPublishers_def p')
    next
      case False
      then have "publishers p' k = publishers p k" by (simp add: p')
      with rdy show ?thesis by (auto simp: readyPublishers_def)
    qed
  qed
  have pl: "playingClients p' = playingClients p"
    using ini by (auto simp: playingClients_def p')
  have "wellFormed p'"
  proof (rule wellFormedI)
    show "finite (clients p')" using fin by (simp add: p')
    show "finite (dom (publishers p'))" using fin by (simp add: p')
  next
    fix k c'
    assume a: "publishers p' k = Some (PubClient c')"
    show "c' \<in> clients p' \<and> path (clientMem p' c') = k \<and> k \<noteq> [] \<and>
        publishing (state (clientMem p' c'))"
    proof (cases "k = pa")
      case True
      with a reg ne show ?thesis by (simp add: p' publishing_def)
    next
      case False
      with a have b: "publishers p k = Some (PubClient c')" by (simp add: p')
      with np have "c' \<noteq> c" by auto
      with wellFormed_client [OF wf b] show ?thesis by (simp add: p')
    qed
  next
    fix k s'
    assume "publishers p' k = Some (PubSource s')"
    then have "publishers p k = Some (PubSource s')"
      by (auto simp: p' split: if_splits)
    from wellFormed_source [OF wf this] show "sourcePath (sourceMem p' s') = k"
      by (simp add: p')
  qed
  with ok r pl show ?thesis
    by (simp add: countsOk_def p')
qed

text \<open>a step that only rewrites the fields of one session and keeps its path\<close>

lemma wellFormed_session_update:
  assumes wf: "wellFormed p"
    and p': "p' = p \<lparr> clientMem := (clientMem p)(c := m) \<rparr>"
    and keep: "\<And>k. publishers p k = Some (PubClient c) \<Longrightarrow>
                 path m = path (clientMem p c) \<and> publishing (state m)"
  shows "wellFormed p'"
proof (rule wellFormedI)
  note fin = wellFormed_finite [OF wf]
  show "finite (clients p')" using fin by (simp add: p')
  show "finite (dom (publishers p'))" using fin by (simp add: p')
next
  fix k c'
  assume "publishers p' k = Some (PubClient c')"
  then have b: "publishers p k = Some (PubClient c')" by (simp add: p')
  show "c' \<in> clients p' \<and> path (clientMem p' c') = k \<and> k \<noteq> [] \<and>
      publishing (state (clientMem p' c'))"
  proof (cases "c' = c")
    case True
    with keep b wellFormed_client [OF wf b] show ?thesis by (simp add: p')
  next
    case False
    with wellFormed_client [OF wf b] show ?thesis by (simp add: p')
  qed
next
  fix k s'
  assume "publishers p' k = Some (PubSource s')"
  then have "publishers p k = Some (PubSource s')" by (simp add: p')
  from wellFormed_source [OF wf this] show "sourcePath (sourceMem p' s') = k"
    by (simp add: p')
qed

lemma wellFormed_counters:
  "wellFormed (p \<lparr> publisherCount := n \<rparr>) = wellFormed p"
  "wellFormed (p \<lparr> receiverCount := n \<rparr>) = wellFormed p"
  by (simp_all add: wellFormed_def)

lemma step_SetupPlay:
  assumes wf: "wellFormed p" and ok: "countsOk p"
    and e: "eventOk rt p (programEventClientSetupPlay c pa proto rtp rtcp)"
    and s: "step rt p (programEventClientSetupPlay c pa proto rtp rtcp) = Inr (p', es)"
  shows "wellFormed p' \<and> countsOk p'"
proof (cases "p' = p")
  case True
  with wf ok show ?thesis by simp
next
  case False
  define m where "m = (clientMem p c) \<lparr> path := pa, streamProtocol := proto,
      streamTracks := streamTracks (clientMem p c) @ [\<lparr> rtpPort = rtp, rtcpPort = rtcp \<rparr>],
      state := clientStatePrePlay \<rparr>"
  from s False have p': "p' = p \<lparr> clientMem := (clientMem p)(c := m) \<rparr>"
    by (auto simp: Let_def m_def split: option.splits if_splits)
  from e have st: "state (clientMem p c) = clientStateInitial \<or>
      state (clientMem p c) = clientStatePrePlay"
    by simp
  then have "\<not> publishing (state (clientMem p c))"
    by (auto simp: publishing_def)
  with wf have np: "\<And>k. publishers p k \<noteq> Some (PubClient c)"
    by (rule notPublisher)
  have r: "readyPublishers p' = readyPublishers p"
    by (rule ready_other [OF np]) (simp_all add: p')
  have pl: "playingClients p' = playingClients p"
    using st by (auto simp: playingClients_def p' m_def)
  have "wellFormed p'"
    using wf p' by (rule wellFormed_session_update) (simp add: np)
  with ok r pl show ?thesis
    by (simp add: countsOk_def p')
qed

lemma step_SetupRecord:
  assumes wf: "wellFormed p" and ok: "countsOk p"
    and e: "eventOk rt p (programEventClientSetupRecord c proto rtp rtcp)"
    and s: "step rt p (programEventClientSetupRecord c proto rtp rtcp) = Inr (p', es)"
  shows "wellFormed p' \<and> countsOk p'"
proof -
  define m where "m = (clientMem p c) \<lparr> streamProtocol := proto,
      streamTracks := streamTracks (clientMem p c) @ [\<lparr> rtpPort = rtp, rtcpPort = rtcp \<rparr>],
      state := clientStatePreRecord \<rparr>"
  from s have p': "p' = p \<lparr> clientMem := (clientMem p)(c := m) \<rparr>"
    by (simp add: m_def)
  from e have st: "state (clientMem p c) = clientStateAnnounce \<or>
      state (clientMem p c) = clientStatePreRecord"
    by simp
  have r: "readyPublishers p' = readyPublishers p"
    using st by (intro ready_same_state) (auto simp: p' m_def)
  have pl: "playingClients p' = playingClients p"
    using st by (auto simp: playingClients_def p' m_def)
  have "wellFormed p'"
    using wf p' by (rule wellFormed_session_update) (simp add: m_def publishing_def)
  with ok r pl show ?thesis
    by (simp add: countsOk_def p')
qed

lemma step_Play2:
  assumes wf: "wellFormed p" and ok: "countsOk p"
    and e: "eventOk rt p (programEventClientPlay2 c)"
    and s: "step rt p (programEventClientPlay2 c) = Inr (p', es)"
  shows "wellFormed p' \<and> countsOk p'"
proof -
  define m where "m = (clientMem p c) \<lparr> state := clientStatePlay \<rparr>"
  define q where "q = p \<lparr> clientMem := (clientMem p)(c := m) \<rparr>"
  from s have p': "p' = q \<lparr> receiverCount := receiverCount p + 1 \<rparr>"
    by (auto simp: m_def q_def)
  from e have reg: "c \<in> clients p" and st: "state (clientMem p c) = clientStatePrePlay"
    by auto
  from st have "\<not> publishing (state (clientMem p c))"
    by (simp add: publishing_def)
  with wf have np: "\<And>k. publishers p k \<noteq> Some (PubClient c)"
    by (rule notPublisher)
  have r: "readyPublishers p' = readyPublishers p"
    by (rule ready_other [OF np]) (simp_all add: p' q_def)
  have pl: "playingClients p' = insert c (playingClients p)"
    using reg by (auto simp: playingClients_def p' q_def m_def)
  from st have notin: "c \<notin> playingClients p"
    by (simp add: playingClients_def)
  have "wellFormed q"
    using wf q_def by (rule wellFormed_session_update) (simp add: np)
  then have "wellFormed p'"
    by (simp add: p' wellFormed_counters)
  moreover from ok have "publisherCount p' = of_nat (card (readyPublishers p'))"
    by (simp add: countsOk_def r) (simp add: p' q_def)
  moreover from ok have "receiverCount p' = of_nat (card (playingClients p'))"
    unfolding pl count_insert [OF finite_playingClients [OF wf] notin]
    by (simp add: countsOk_def p' q_def)
  ultimately show ?thesis
    by (simp add: countsOk_def)
qed

lemma step_PlayStop:
  assumes wf: "wellFormed p" and ok: "countsOk p"
    and e: "eventOk rt p (programEventClientPlayStop c)"
    and s: "step rt p (programEventClientPlayStop c) = Inr (p', es)"
  shows "wellFormed p' \<and> countsOk p'"
proof -
  define m where "m = (clientMem p c) \<lparr> state := clientStatePrePlay \<rparr>"
  define q where "q = p \<lparr> clientMem := (clientMem p)(c := m) \<rparr>"
  from s have p': "p' = q \<lparr> receiverCount := receiverCount p - 1 \<rparr>"
    by (auto simp: m_def q_def)
  from e have reg: "c \<in> clients p" and st: "state (clientMem p c) = clientStatePlay"
    by auto
  from st have "\<not> publishing (state (clientMem p c))"
    by (simp add: publishing_def)
  with wf have np: "\<And>k. publishers p k \<noteq> Some (PubClient c)"
    by (rule notPublisher)
  have r: "readyPublishers p' = readyPublishers p"
    by (rule ready_other [OF np]) (simp_all add: p' q_def)
  have pl: "playingClients p' = playingClients p - {c}"
    by (auto simp: playingClients_def p' q_def m_def)
  from st reg have isin: "c \<in> playingClients p"
    by (simp add: playingClients_def)
  have "wellFormed q"
    using wf q_def by (rule wellFormed_session_update) (simp add: np)
  then have "wellFormed p'"
    by (simp add: p' wellFormed_counters)
  moreover from ok have "publisherCount p' = of_nat (card (readyPublishers p'))"
    by (simp add: countsOk_def r) (simp add: p' q_def)
  moreover from ok have "receiverCount p' = of_nat (card (playingClients p'))"
    unfolding pl count_remove [OF finite_playingClients [OF wf] isin]
    by (simp add: countsOk_def p' q_def)
  ultimately show ?thesis
    by (simp add: countsOk_def)
qed

text \<open>the ready publishers when the publisher of one path changes its readiness\<close>

lemma ready_becomes:
  assumes same: "publishers p' = publishers p" and k0: "publishers p k0 = Some pub0"
    and now: "publisherIsReady p' pub0"
    and other: "\<And>k pub. publishers p k = Some pub \<Longrightarrow> k \<noteq> k0 \<Longrightarrow>
           publisherIsReady p' pub = publisherIsReady p pub"
  shows "readyPublishers p' = insert k0 (readyPublishers p)"
proof (rule set_eqI)
  fix k
  show "k \<in> readyPublishers p' \<longleftrightarrow> k \<in> insert k0 (readyPublishers p)"
  proof (cases "k = k0")
    case True
    with same k0 now show ?thesis by (simp add: readyPublishers_def)
  next
    case False
    with same other [of k] show ?thesis by (auto simp: readyPublishers_def)
  qed
qed

lemma ready_ceases:
  assumes same: "publishers p' = publishers p" and k0: "publishers p k0 = Some pub0"
    and now: "\<not> publisherIsReady p' pub0"
    and other: "\<And>k pub. publishers p k = Some pub \<Longrightarrow> k \<noteq> k0 \<Longrightarrow>
           publisherIsReady p' pub = publisherIsReady p pub"
  shows "readyPublishers p' = readyPublishers p - {k0}"
proof (rule set_eqI)
  fix k
  show "k \<in> readyPublishers p' \<longleftrightarrow> k \<in> readyPublishers p - {k0}"
  proof (cases "k = k0")
    case True
    with same k0 now show ?thesis by (simp add: readyPublishers_def)
  next
    case False
    with same other [of k] show ?thesis by (auto simp: readyPublishers_def)
  qed
qed

lemma step_Record:
  assumes wf: "wellFormed p" and ok: "countsOk p"
    and e: "eventOk rt p (programEventClientRecord c)"
    and s: "step rt p (programEventClientRecord c) = Inr (p', es)"
  shows "wellFormed p' \<and> countsOk p'"
proof -
  define m where "m = (clientMem p c) \<lparr> state := clientStateRecord \<rparr>"
  define q where "q = p \<lparr> clientMem := (clientMem p)(c := m) \<rparr>"
  define k0 where "k0 = path (clientMem p c)"
  from s have p': "p' = q \<lparr> publisherCount := publisherCount p + 1 \<rparr>"
    by (auto simp: m_def q_def)
  from e have st: "state (clientMem p c) = clientStatePreRecord"
    and pub: "publishers p k0 = Some (PubClient c)"
    by (auto simp: k0_def)
  have other: "publisherIsReady p' pub = publisherIsReady p pub"
    if "publishers p k = Some pub" "k \<noteq> k0" for k pub
  proof (cases pub)
    case (PubClient c')
    with that wellFormed_client [OF wf, of k c'] have "c' \<noteq> c"
      by (auto simp: k0_def)
    with PubClient show ?thesis by (simp add: p' q_def)
  next
    case (PubSource s)
    then show ?thesis by (simp add: p' q_def)
  qed
  have r: "readyPublishers p' = insert k0 (readyPublishers p)"
    by (rule ready_becomes [OF _ pub _ other]) (simp_all add: p' q_def m_def)
  from st pub have notin: "k0 \<notin> readyPublishers p"
    by (simp add: readyPublishers_def)
  have pl: "playingClients p' = playingClients p"
    using st by (auto simp: playingClients_def p' q_def m_def)
  have "wellFormed q"
    using wf q_def by (rule wellFormed_session_update) (simp add: m_def publishing_def)
  then have "wellFormed p'"
    by (simp add: p' wellFormed_counters)
  moreover from ok have "receiverCount p' = of_nat (card (playingClients p'))"
    by (simp add: countsOk_def pl) (simp add: p' q_def)
  moreover from ok have "publisherCount p' = of_nat (card (readyPublishers p'))"
    unfolding r count_insert [OF finite_readyPublishers [OF wf] notin]
    by (simp add: countsOk_def p' q_def)
  ultimately show ?thesis
    by (simp add: countsOk_def)
qed

lemma step_RecordStop:
  assumes wf: "wellFormed p" and ok: "countsOk p"
    and e: "eventOk rt p (programEventClientRecordStop c)"
    and s: "step rt p (programEventClientRecordStop c) = Inr (p', es)"
  shows "wellFormed p' \<and> countsOk p'"
proof -
  define m where "m = (clientMem p c) \<lparr> state := clientStatePreRecord \<rparr>"
  define q where "q = p \<lparr> clientMem := (clientMem p)(c := m) \<rparr>"
  define k0 where "k0 = path (clientMem p c)"
  from s have p': "p' = q \<lparr> publisherCount := publisherCount p - 1 \<rparr>"
    by (auto simp: m_def q_def Let_def)
  from e have st: "state (clientMem p c) = clientStateRecord"
    and pub: "publishers p k0 = Some (PubClient c)"
    by (auto simp: k0_def)
  have other: "publisherIsReady p' pub = publisherIsReady p pub"
    if "publishers p k = Some pub" "k \<noteq> k0" for k pub
  proof (cases pub)
    case (PubClient c')
    with that wellFormed_client [OF wf, of k c'] have "c' \<noteq> c"
      by (auto simp: k0_def)
    with PubClient show ?thesis by (simp add: p' q_def)
  next
    case (PubSource s)
    then show ?thesis by (simp add: p' q_def)
  qed
  have r: "readyPublishers p' = readyPublishers p - {k0}"
    by (rule ready_ceases [OF _ pub _ other]) (simp_all add: p' q_def m_def)
  from st pub have isin: "k0 \<in> readyPublishers p"
    by (simp add: readyPublishers_def)
  have pl: "playingClients p' = playingClients p"
    using st by (auto simp: playingClients_def p' q_def m_def)
  have "wellFormed q"
    using wf q_def by (rule wellFormed_session_update) (simp add: m_def publishing_def)
  then have "wellFormed p'"
    by (simp add: p' wellFormed_counters)
  moreover from ok have "receiverCount p' = of_nat (card (playingClients p'))"
    by (simp add: countsOk_def pl) (simp add: p' q_def)
  moreover from ok have "publisherCount p' = of_nat (card (readyPublishers p'))"
    unfolding r count_remove [OF finite_readyPublishers [OF wf] isin]
    by (simp add: countsOk_def p' q_def)
  ultimately show ?thesis
    by (simp add: countsOk_def)
qed

lemma wellFormed_source_update:
  assumes wf: "wellFormed p"
    and p': "p' = p \<lparr> sourceMem := (sourceMem p)(s := m) \<rparr>"
    and keep: "sourcePath m = sourcePath (sourceMem p s)"
  shows "wellFormed p'"
proof (rule wellFormedI)
  note fin = wellFormed_finite [OF wf]
  show "finite (clients p')" using fin by (simp add: p')
  show "finite (dom (publishers p'))" using fin by (simp add: p')
next
  fix k c'
  assume "publishers p' k = Some (PubClient c')"
  then have b: "publishers p k = Some (PubClient c')" by (simp add: p')
  from wellFormed_client [OF wf b]
  show "c' \<in> clients p' \<and> path (clientMem p' c') = k \<and> k \<noteq> [] \<and>
      publishing (state (clientMem p' c'))"
    by (simp add: p')
next
  fix k s'
  assume "publishers p' k = Some (PubSource s')"
  then have "publishers p k = Some (PubSource s')" by (simp add: p')
  from wellFormed_source [OF wf this] keep show "sourcePath (sourceMem p' s') = k"
    by (auto simp: p')
qed

lemma step_StreamerReady:
  assumes wf: "wellFormed p" and ok: "countsOk p"
    and e: "eventOk rt p (programEventStreamerReady s)"
    and s: "step rt p (programEventStreamerReady s) = Inr (p', es)"
  shows "wellFormed p' \<and> countsOk p'"
proof -
  define m where "m = (sourceMem p s) \<lparr> ready := True \<rparr>"
  define q where "q = p \<lparr> sourceMem := (sourceMem p)(s := m) \<rparr>"
  define k0 where "k0 = sourcePath (sourceMem p s)"
  from s have p': "p' = q \<lparr> publisherCount := publisherCount p + 1 \<rparr>"
    by (auto simp: m_def q_def)
  from e have st: "\<not> ready (sourceMem p s)"
    and pub: "publishers p k0 = Some (PubSource s)"
    by (auto simp: k0_def)
  have other: "publisherIsReady p' pub = publisherIsReady p pub"
    if "publishers p k = Some pub" "k \<noteq> k0" for k pub
  proof (cases pub)
    case (PubClient c')
    then show ?thesis by (simp add: p' q_def)
  next
    case (PubSource s')
    with that wellFormed_source [OF wf, of k s'] have "s' \<noteq> s"
      by (auto simp: k0_def)
    with PubSource show ?thesis by (simp add: p' q_def)
  qed
  have r: "readyPublishers p' = insert k0 (readyPublishers p)"
    by (rule ready_becomes [OF _ pub _ other]) (simp_all add: p' q_def m_def)
  from st pub have notin: "k0 \<notin> readyPublishers p"
    by (simp add: readyPublishers_def)
  have pl: "playingClients p' = playingClients p"
    by (simp add: playingClients_def p' q_def)
  have "wellFormed q"
    using wf q_def by (rule wellFormed_source_update) (simp add: m_def)
  then have "wellFormed p'"
    by (simp add: p' wellFormed_counters)
  moreover from ok have "receiverCount p' = of_nat (card (playingClients p'))"
    by (simp add: countsOk_def pl) (simp add: p' q_def)
  moreover from ok have "publisherCount p' = of_nat (card (readyPublishers p'))"
    unfolding r count_insert [OF finite_readyPublishers [OF wf] notin]
    by (simp add: countsOk_def p' q_def)
  ultimately show ?thesis
    by (simp add: countsOk_def)
qed

lemma step_StreamerNotReady:
  assumes wf: "wellFormed p" and ok: "countsOk p"
    and e: "eventOk rt p (programEventStreamerNotReady s)"
    and s: "step rt p (programEventStreamerNotReady s) = Inr (p', es)"
  shows "wellFormed p' \<and> countsOk p'"
proof -
  define m where "m = (sourceMem p s) \<lparr> ready := False \<rparr>"
  define q where "q = p \<lparr> sourceMem := (sourceMem p)(s := m) \<rparr>"
  define k0 where "k0 = sourcePath (sourceMem p s)"
  from s have p': "p' = q \<lparr> publisherCount := publisherCount p - 1 \<rparr>"
    by (auto simp: m_def q_def Let_def)
  from e have st: "ready (sourceMem p s)"
    and pub: "publishers p k0 = Some (PubSource s)"
    by (auto simp: k0_def)
  have other: "publisherIsReady p' pub = publisherIsReady p pub"
    if "publishers p k = Some pub" "k \<noteq> k0" for k pub
  proof (cases pub)
    case (PubClient c')
    then show ?thesis by (simp add: p' q_def)
  next
    case (PubSource s')
    with that wellFormed_source [OF wf, of k s'] have "s' \<noteq> s"
      by (auto simp: k0_def)
    with PubSource show ?thesis by (simp add: p' q_def)
  qed
  have r: "readyPublishers p' = readyPublishers p - {k0}"
    by (rule ready_ceases [OF _ pub _ other]) (simp_all add: p' q_def m_def)
  from st pub have isin: "k0 \<in> readyPublishers p"
    by (simp add: readyPublishers_def)
  have pl: "playingClients p' = playingClients p"
    by (simp add: playingClients_def p' q_def)
  have "wellFormed q"
    using wf q_def by (rule wellFormed_source_update) (simp add: m_def)
  then have "wellFormed p'"
    by (simp add: p' wellFormed_counters)
  moreover from ok have "receiverCount p' = of_nat (card (playingClients p'))"
    by (simp add: countsOk_def pl) (simp add: p' q_def)
  moreover from ok have "publisherCount p' = of_nat (card (readyPublishers p'))"
    unfolding r count_remove [OF finite_readyPublishers [OF wf] isin]
    by (simp add: countsOk_def p' q_def)
  ultimately show ?thesis
    by (simp add: countsOk_def)
qed

lemma step_same_state:
  assumes "step rt p evt = Inr (p', es)"
    and "(\<exists>pa. evt = programEventClientDescribe pa) \<or> (\<exists>c. evt = programEventClientPlay1 c) \<or>
         (\<exists>a st b. evt = programEventClientFrameUdp a st b) \<or>
         (\<exists>pa t st b. evt = programEventClientFrameTcp pa t st b) \<or>
         (\<exists>s t st b. evt = programEventStreamerFrame s t st b) \<or>
         evt = programEventTerminate"
  shows "p' = p"
  using assms
  by (auto simp: Let_def split: option.splits if_splits sum.splits prod.splits)

lemma step_preserves:
  assumes wf: "wellFormed p" and ok: "countsOk p"
    and e: "eventOk rt p evt"
    and s: "step rt p evt = Inr (p', es)"
  shows "wellFormed p' \<and> countsOk p'"
proof (cases evt)
  case (programEventClientNew ip zone)
  with e have "newAddr rt \<notin> clients p" by simp
  with wf ok s programEventClientNew show ?thesis
    by (auto dest: step_ClientNew)
next
  case (programEventClientClose c)
  with wf ok e s show ?thesis by (auto dest: step_ClientClose)
next
  case (programEventClientDescribe pa)
  with step_same_state [OF s] wf ok show ?thesis by simp
next
  case (programEventClientAnnounce c pa)
  with wf ok e s show ?thesis by (auto dest: step_Announce)
next
  case (programEventClientSetupPlay c pa proto rtp rtcp)
  with wf ok e s show ?thesis by (auto dest: step_SetupPlay)
next
  case (programEventClientSetupRecord c proto rtp rtcp)
  with wf ok e s show ?thesis by (auto dest: step_SetupRecord)
next
  case (programEventClientPlay1 c)
  with step_same_state [OF s] wf ok show ?thesis by simp
next
  case (programEventClientPlay2 c)
  with wf ok e s show ?thesis by (auto dest: step_Play2)
next
  case (programEventClientPlayStop c)
  with wf ok e s show ?thesis by (auto dest: step_PlayStop)
next
  case (programEventClientRecord c)
  with wf ok e s show ?thesis by (auto dest: step_Record)
next
  case (programEventClientRecordStop c)
  with wf ok e s show ?thesis by (auto dest: step_RecordStop)
next
  case (programEventClientFrameUdp a st b)
  with step_same_state [OF s] wf ok show ?thesis by simp
next
  case (programEventClientFrameTcp pa t st b)
  with step_same_state [OF s] wf ok show ?thesis by simp
next
  case (programEventStreamerReady s')
  with wf ok e s show ?thesis by (auto dest: step_StreamerReady)
next
  case (programEventStreamerNotReady s')
  with wf ok e s show ?thesis by (auto dest: step_StreamerNotReady)
next
  case (programEventStreamerFrame s' t st b)
  with step_same_state [OF s] wf ok show ?thesis by simp
next
  case programEventTerminate
  with step_same_state [OF s] wf ok show ?thesis by simp
qed

text \<open>
  C1, as the code has it. Start from a state in which the map and the sessions hang
  together and both counters are right: \<open>publisherCount\<close> is the number of ready
  publishers, \<open>receiverCount\<close> the number of registered clients in state PLAY. Then
  after every sequence of events that follows the state machine of the sessions, with
  ClientClose sent only for a session that has left PLAY and is no ready publisher (the
  handler of ClientClose touches no counter; PlayStop and RecordStop do), both counters
  are right again, whenever the loop waits for its next event.
\<close>

theorem counters_at_quiescent_points:
  assumes "wellFormed p" and "countsOk p" and "eventsOk p evts"
    and "run p evts = Inr (p', es, ds)"
  shows "countsOk p' \<and> wellFormed p'"
  using assms
proof (induction evts arbitrary: p es)
  case Nil
  then show ?case by simp
next
  case (Cons x evts)
  obtain rt evt where x: "x = (rt, evt)" by (cases x)
  show ?case
  proof (cases "evt = programEventTerminate")
    case True
    with Cons.prems x show ?thesis by simp
  next
    case False
    with Cons.prems(4) x obtain q es1 es2 where st: "step rt p evt = Inr (q, es1)"
      and r: "run q evts = Inr (p', es2, ds)"
      by (auto split: sum.splits prod.splits)
    from Cons.prems(3) x False st have e: "eventOk rt p evt" and es: "eventsOk q evts"
      by auto
    from step_preserves [OF Cons.prems(1,2) e st] have "wellFormed q" "countsOk q"
      by auto
    from Cons.IH [OF this es r] show ?thesis .
  qed
qed

lemmas fixture_defs = program0_def program1_def runtime0_def runtime1_def client0_def source0_def
  programStart_def runtimeOf_def

lemma run_closeWhilePlaying:
  "run program0 closeWhilePlaying =
     Inr (program0 \<lparr> sourceMem := (sourceMem program0)(0 := source0 \<lparr> ready := True \<rparr>),
            publisherCount := 1, receiverCount := 1,
            clientMem := (clientMem program0)
              (1 := client0 \<lparr> remoteIp := 20, path := ''cam'',
                     streamTracks := [\<lparr> rtpPort = 6000, rtcpPort = 6001 \<rparr>],
                     state := clientStatePlay \<rparr>) \<rparr>,
          [SourceLog 0 ''ready'', ClientRun 1, ClientLog 1 ''connected'', ResError None,
           ResError None, CloseDone, ClientLog 1 ''disconnected'', CloseDone],
          [])"
  by (simp add: closeWhilePlaying_def fixture_defs newServerClient_def Let_def)

lemma wellFormed_program0: "wellFormed program0"
  by (auto simp: wellFormed_def program0_def source0_def split: if_splits)

lemma countsOk_program0: "countsOk program0"
  by (auto simp: countsOk_def readyPublishers_def playingClients_def program0_def source0_def
      split: if_splits)

text \<open>
  C1 as stated fails. A session sets up and plays the ready source and then sends
  ClientClose while in state PLAY: every event is handled without error, the set of
  clients is empty afterwards and \<open>receiverCount\<close> is still 1.
\<close>

theorem closeWhilePlaying_counterexample:
  "wellFormed program0 \<and> countsOk program0 \<and>
   \<not> isl (run program0 closeWhilePlaying) \<and>
   clients (stateAfter program0 closeWhilePlaying) = {} \<and>
   receiverCount (stateAfter program0 closeWhilePlaying) = 1 \<and>
   \<not> countsOk (stateAfter program0 closeWhilePlaying)"
proof -
  have a: "\<not> isl (run program0 closeWhilePlaying)"
    by (simp add: run_closeWhilePlaying)
  have b: "clients (stateAfter program0 closeWhilePlaying) = {}"
    by (simp add: stateAfter_def run_closeWhilePlaying) (simp add: program0_def)
  have c: "receiverCount (stateAfter program0 closeWhilePlaying) = 1"
    by (simp add: stateAfter_def run_closeWhilePlaying)
  from b have "playingClients (stateAfter program0 closeWhilePlaying) = {}"
    by (simp add: playingClients_def)
  with c have "\<not> countsOk (stateAfter program0 closeWhilePlaying)"
    by (simp add: countsOk_def)
  with a b c wellFormed_program0 countsOk_program0 show ?thesis
    by blast
qed

lemma eventsOk_playAndStop: "eventsOk program0 playAndStop"
  by (simp add: playAndStop_def fixture_defs newServerClient_def Let_def)

text \<open>
  C1 at work: the same session sends PlayStop before ClientClose, and the counters are
  right at the end, with no receiver and one ready publisher.
\<close>

theorem counters_at_quiescent_points_witness:
  "wellFormed program0 \<and> countsOk program0 \<and> eventsOk program0 playAndStop \<and>
   \<not> isl (run program0 playAndStop) \<and>
   countsOk (stateAfter program0 playAndStop) \<and>
   receiverCount (stateAfter program0 playAndStop) = 0 \<and>
   publisherCount (stateAfter program0 playAndStop) = 1"
proof -
  obtain p' es ds where r: "run program0 playAndStop = Inr (p', es, ds)"
    and c: "receiverCount p' = 0" "publisherCount p' = 1"
    by (simp add: playAndStop_def fixture_defs newServerClient_def Let_def)
  from counters_at_quiescent_points
    [OF wellFormed_program0 countsOk_program0 eventsOk_playAndStop r]
  have "countsOk p'" by simp
  with r c show ?thesis
    by (simp add: wellFormed_program0 countsOk_program0 eventsOk_playAndStop stateAfter_def)
qed

section \<open>Tracks and media descriptions\<close>




lemma step_publishers_other:
  assumes "step rt p evt = Inr (p', es)"
    and "\<And>c pa. evt \<noteq> programEventClientAnnounce c pa"
    and "publishers p' k = Some pub"
  shows "publishers p k = Some pub"
  using assms
  by (cases evt)
     (auto simp: Let_def split: option.splits if_splits sum.splits prod.splits)


lemma bound_same_state: "tracksBound p \<Longrightarrow> p' = p \<Longrightarrow> tracksBound p'"
  by simp
















section \<open>A receiver left behind\<close>

lemma wellFormed_programStale: "wellFormed programStale"
  by (simp add: wellFormed_def programStale_def)

lemma countsOk_programStale: "countsOk programStale"
  by (simp add: countsOk_def readyPublishers_def playingClients_def programStale_def)

lemma eventsOk_stale: "eventsOk programStale (becomeStale @ [staleFrame])"
  by (simp add: becomeStale_def staleFrame_def programStale_def fixture_defs newServerClient_def
        Let_def findPublisher_def forwardFrame_def forwardTo_def sliceIndex_def)

lemma run_stale: "run programStale (becomeStale @ [staleFrame]) = Inl IndexOutOfRange"
  by (simp add: becomeStale_def staleFrame_def programStale_def fixture_defs newServerClient_def
        Let_def findPublisher_def forwardFrame_def forwardTo_def sliceIndex_def)

lemma run_becomeStale:
  "\<exists>p' es ds. run programStale becomeStale = Inr (p', es, ds) \<and>
     clients p' = insert 3 ({2, Suc 0} - {Suc 0}) \<and>
     publishers p' = [''live'' \<mapsto> PubClient 3] \<and>
     clientMem p' 2 =
       client0 \<lparr> remoteIp := 20, path := ''live'',
         streamTracks := [\<lparr> rtpPort = 6000, rtcpPort = 6001 \<rparr>],
         state := clientStatePlay \<rparr> \<and>
     clientMem p' 3 =
       client0 \<lparr> remoteIp := 30, path := ''live'',
         streamTracks := [\<lparr> rtpPort = 7000, rtcpPort = 7001 \<rparr>,
                          \<lparr> rtpPort = 7002, rtcpPort = 7003 \<rparr>],
         streamSdpParsed := \<lparr> MediaDescriptions = [''video'', ''audio''] \<rparr>,
         RtcpReceivers := [8, 9],
         state := clientStateRecord \<rparr>"
  by (simp add: becomeStale_def programStale_def fixture_defs newServerClient_def Let_def)

text \<open>
  C7 as stated fails. Every event of \<open>becomeStale\<close> follows the state machine of the
  sessions; at its end session 2 is a receiver of \<open>live\<close> in state PLAY with one track.
  The datagram is found to come from track 1 of session 3, and forwarding it reads track
  1 of session 2: the index is out of range and the loop panics, with no write for any
  receiver. In the same way a frame longer than the scratch buffer of a TCP receiver
  panics in the slice expression.
\<close>

theorem staleReceiver_counterexample:
  "wellFormed programStale \<and> countsOk programStale \<and>
   eventsOk programStale (becomeStale @ [staleFrame]) \<and>
   \<not> isl (run programStale becomeStale) \<and>
   2 \<in> receivers (stateAfter programStale becomeStale) ''live'' \<and>
   length (streamTracks (clientMem (stateAfter programStale becomeStale) 2)) = 1 \<and>
   findPublisher (fst staleFrame) (stateAfter programStale becomeStale)
     \<lparr> IP = 30, Zone = [], Port = 7002 \<rparr> StreamTypeRtp = Some (3, 1) \<and>
   forwardFrame (fst staleFrame) (stateAfter programStale becomeStale) ''live'' 1 StreamTypeRtp
     [1, 2, 3] = Inl IndexOutOfRange \<and>
   run programStale (becomeStale @ [staleFrame]) = Inl IndexOutOfRange \<and>
   forwardFrame runtimeLive programLive ''live'' 0 StreamTypeRtp (replicate 2049 0) =
     Inl SliceBoundsOutOfRange"
proof -
  from run_becomeStale obtain p' es ds
    where r: "run programStale becomeStale = Inr (p', es, ds)"
      and c: "clients p' = insert 3 ({2, Suc 0} - {Suc 0})"
      and pubs: "publishers p' = [''live'' \<mapsto> PubClient 3]"
      and m2: "clientMem p' 2 =
       client0 \<lparr> remoteIp := 20, path := ''live'',
         streamTracks := [\<lparr> rtpPort = 6000, rtcpPort = 6001 \<rparr>],
         state := clientStatePlay \<rparr>"
      and m3: "clientMem p' 3 =
       client0 \<lparr> remoteIp := 30, path := ''live'',
         streamTracks := [\<lparr> rtpPort = 7000, rtcpPort = 7001 \<rparr>,
                          \<lparr> rtpPort = 7002, rtcpPort = 7003 \<rparr>],
         streamSdpParsed := \<lparr> MediaDescriptions = [''video'', ''audio''] \<rparr>,
         RtcpReceivers := [8, 9],
         state := clientStateRecord \<rparr>"
    by blast
  from r have sa: "stateAfter programStale becomeStale = p'"
    by (simp add: stateAfter_def)
  from c m2 have a: "2 \<in> receivers p' ''live''"
    by (simp add: receivers_def)
  from m2 have b: "length (streamTracks (clientMem p' 2)) = 1"
    by simp
  from pubs m3 have f: "findPublisher (fst staleFrame) p'
     \<lparr> IP = 30, Zone = [], Port = 7002 \<rparr> StreamTypeRtp = Some (3, 1)"
    by (simp add: findPublisher_def staleFrame_def runtimeOf_def client0_def)
  from m2 m3 have w: "forwardFrame (fst staleFrame) p' ''live'' 1 StreamTypeRtp [1, 2, 3] =
      Inl IndexOutOfRange"
    by (simp add: forwardFrame_def staleFrame_def runtimeOf_def forwardTo_def sliceIndex_def
          client0_def)
  have t: "forwardFrame runtimeLive programLive ''live'' 0 StreamTypeRtp (replicate 2049 0) =
     Inl SliceBoundsOutOfRange"
    by (simp add: forwardFrame_def forwardTo_def runtimeLive_def programLive_def playerTcp_def)
  from r have "\<not> isl (run programStale becomeStale)" by simp
  with a b f w t show ?thesis
    using wellFormed_programStale countsOk_programStale eventsOk_stale run_stale
    by (simp add: sa)
qed

section \<open>After Terminate\<close>

lemma run_drained:
  "run p evts = Inr (p', es, ds) \<Longrightarrow>
     ds = concat (map (\<lambda>(rt, e). drain e)
            (drop 1 (dropWhile (\<lambda>(rt, e). e \<noteq> programEventTerminate) evts)))"
proof (induction evts arbitrary: p es)
  case Nil
  then show ?case by simp
next
  case (Cons x evts)
  obtain rt evt where x: "x = (rt, evt)" by (cases x)
  show ?case
  proof (cases "evt = programEventTerminate")
    case True
    with Cons.prems x show ?thesis by simp
  next
    case False
    with Cons.prems x obtain q es2 where "run q evts = Inr (p', es2, ds)"
      by (auto split: sum.splits prod.splits)
    from Cons.IH [OF this] False x show ?thesis by simp
  qed
qed

lemma drain_cases:
  "(awaitsReply e \<and> (\<exists>x. drain e = [x] \<and> answers e x)) \<or> (\<not> awaitsReply e \<and> drain e = [])"
  by (cases e) (simp_all add: awaitsReply_def answers_def)

lemma drained_answers:
  "list_all2 answers (filter awaitsReply (map snd rest)) (concat (map (\<lambda>(rt, e). drain e) rest))"
proof (induction rest)
  case Nil
  then show ?case by simp
next
  case (Cons x rest)
  obtain rt e where x: "x = (rt, e)" by (cases x)
  from drain_cases [of e] Cons.IH x show ?case by auto
qed

text \<open>
  C9, as the code has it. What the drainer sends is, in order, its answer to each event
  received after the first Terminate: an empty result for Describe (its channel carries
  bytes, not errors), the error \<open>terminated\<close> for Announce, SetupPlay, SetupRecord and
  Play1, and the closing of \<open>done\<close> for ClientClose, Play2, PlayStop, Record and
  RecordStop; for an event without a channel it sends nothing. So the events that wait
  on a channel and the effects of the drainer correspond one to one, each effect on the
  channel of its event: no session is left waiting for a reply.
\<close>

theorem drained_after_terminate:
  assumes "run p evts = Inr (p', es, ds)"
  shows "ds = concat (map (\<lambda>(rt, e). drain e)
            (drop 1 (dropWhile (\<lambda>(rt, e). e \<noteq> programEventTerminate) evts))) \<and>
     list_all2 answers
       (filter awaitsReply
          (map snd (drop 1 (dropWhile (\<lambda>(rt, e). e \<noteq> programEventTerminate) evts)))) ds \<and>
     drain (programEventClientDescribe pa) = [ResBytes None] \<and>
     drain (programEventClientAnnounce c pa) = [ResError (Some ''terminated'')] \<and>
     drain (programEventClientSetupPlay c pa proto rtp rtcp) = [ResError (Some ''terminated'')] \<and>
     drain (programEventClientSetupRecord c proto rtp rtcp) = [ResError (Some ''terminated'')] \<and>
     drain (programEventClientPlay1 c) = [ResError (Some ''terminated'')] \<and>
     drain (programEventClientClose c) = [CloseDone] \<and>
     drain (programEventClientPlay2 c) = [CloseDone] \<and>
     drain (programEventClientPlayStop c) = [CloseDone] \<and>
     drain (programEventClientRecord c) = [CloseDone] \<and>
     drain (programEventClientRecordStop c) = [CloseDone] \<and>
     drain (programEventClientNew ip zone) = [] \<and>
     drain (programEventClientFrameUdp a st b) = [] \<and>
     drain (programEventClientFrameTcp pa t st b) = [] \<and>
     drain (programEventStreamerReady s) = [] \<and>
     drain (programEventStreamerNotReady s) = [] \<and>
     drain (programEventStreamerFrame s t st b) = [] \<and>
     drain programEventTerminate = []"
  using run_drained [OF assms] drained_answers by simp

text \<open>
  C9 at work: the Describe before Terminate is answered by the loop; of the five events
  after it, the three that carry a channel are answered by the drainer and the other two
  are dropped.
\<close>

theorem drained_after_terminate_witness:
  "run program0
     [(runtime0, programEventClientDescribe ''cam''),
      (runtime0, programEventTerminate),
      (runtime0, programEventClientAnnounce 1 ''live''),
      (runtime0, programEventClientFrameTcp ''cam'' 0 StreamTypeRtp [1, 2, 3]),
      (runtime0, programEventClientDescribe ''cam''),
      (runtime0, programEventClientNew 20 []),
      (runtime0, programEventClientPlay2 1)] =
   Inr (program0, ResBytes None # shutdown runtime0 program0,
        [ResError (Some ''terminated''), ResBytes None, CloseDone])"
proof -
  obtain es ds where r: "run program0
     [(runtime0, programEventClientDescribe ''cam''),
      (runtime0, programEventTerminate),
      (runtime0, programEventClientAnnounce 1 ''live''),
      (runtime0, programEventClientFrameTcp ''cam'' 0 StreamTypeRtp [1, 2, 3]),
      (runtime0, programEventClientDescribe ''cam''),
      (runtime0, programEventClientNew 20 []),
      (runtime0, programEventClientPlay2 1)] = Inr (program0, es, ds)"
    and es: "es = ResBytes None # shutdown runtime0 program0"
    by (simp add: program0_def source0_def)
  from drained_after_terminate [OF r]
  have "ds = [ResError (Some ''terminated''), ResBytes None, CloseDone]"
    by simp
  with r es show ?thesis by simp
qed

text \<open>
  C9 as stated fails for Describe: after Terminate it is answered with an empty result,
  not with an error.
\<close>

theorem drained_describe_counterexample:
  "run program0
     [(runtime0, programEventTerminate), (runtime0, programEventClientDescribe ''cam'')] =
   Inr (program0, shutdown runtime0 program0, [ResBytes None])"
  by simp

end
